theory Spec2Isabelle
  imports Complex_Main "HOL-Library.AList"
begin

section \<open>Values, errors and Python built-ins\<close>

text \<open>
  The module \<^verbatim>\<open>verif/input.py\<close> reads verification data from three file formats.
  Floats are modelled as real numbers together with the single not-a-number object
  \<^verbatim>\<open>np.nan\<close>. Rounding and the infinities are not modelled; a token that Python's
  \<^verbatim>\<open>float\<close> would read as \<^verbatim>\<open>nan\<close> or \<^verbatim>\<open>inf\<close> is outside the model. Since every
  not-a-number of the text decoder is the one object \<^verbatim>\<open>np.nan\<close>, which dictionaries
  and sets find by identity, HOL equality on \<open>fval\<close> is the key equality of Python.
\<close>

datatype fval = NaN | Fin real

fun isnan :: "fval \<Rightarrow> bool" where
  "isnan NaN = True"
| "isnan (Fin _) = False"

text \<open>Every \<^verbatim>\<open>raise\<close>, failed look-up and call of \<^verbatim>\<open>verif.util.error\<close> is a value.\<close>

datatype error =
    FileNotFound
  | UnrecognizedFormat
  | MissingColumn string
  | IncorrectNumberOfColumns
  | ValueError
  | IndexError
  | KeyError
  | AttributeError
  | IOError

definition bnd :: "error + 'a \<Rightarrow> ('a \<Rightarrow> error + 'b) \<Rightarrow> error + 'b" where
  "bnd m f = (case m of Inl e \<Rightarrow> Inl e | Inr x \<Rightarrow> f x)"

text \<open>\<^verbatim>\<open>s.replace(old, new)\<close>: non-overlapping occurrences, from the left.\<close>

function replace :: "string \<Rightarrow> string \<Rightarrow> string \<Rightarrow> string" where
  "replace old new [] = []"
| "replace old new (c # cs) =
     (if old \<noteq> [] \<and> take (length old) (c # cs) = old
      then new @ replace old new (drop (length old) (c # cs))
      else c # replace old new cs)"
  by pat_completeness auto
termination
  by (relation "measure (\<lambda>(old, new, s). length s)") (auto simp: neq_Nil_conv)

text \<open>\<^verbatim>\<open>s.split()\<close>: the maximal runs of characters that are not white space.\<close>

definition is_space :: "char \<Rightarrow> bool" where
  "is_space c \<longleftrightarrow> c \<in> set [CHR '' '', CHR 0x09, CHR 0x0A, CHR 0x0B, CHR 0x0C, CHR 0x0D]"

fun split_from :: "string \<Rightarrow> string \<Rightarrow> string list" where
  "split_from cur [] = (if cur = [] then [] else [rev cur])"
| "split_from cur (c # cs) =
     (if is_space c then (if cur = [] then split_from [] cs else rev cur # split_from [] cs)
      else split_from (c # cur) cs)"

definition split :: "string \<Rightarrow> string list" where
  "split s = split_from [] s"

text \<open>\<^verbatim>\<open>' '.join(xs)\<close>.\<close>

fun join :: "string list \<Rightarrow> string" where
  "join [] = []"
| "join [x] = x"
| "join (x # y # ys) = x @ '' '' @ join (y # ys)"

subsection \<open>Decimal literals and number formatting\<close>

text \<open>
  The naming codec goes through \<^verbatim>\<open>float(s)\<close>, \<^verbatim>\<open>"%d" % x\<close> and \<^verbatim>\<open>"%g" % x\<close>. The
  functions of the decoders take the reading of floats as a parameter \<open>flt\<close>
  (\<open>None\<close> is Python's \<^verbatim>\<open>ValueError\<close>), so that what is proved of them holds for
  every behaviour of \<^verbatim>\<open>float\<close>. The concrete reader \<open>py_float\<close> below is used where a
  closed input is evaluated. It reads plain decimal literals: an optional sign, digits
  and at most one point, with at least one digit. Exponents are not modelled.
\<close>

definition digit_of :: "char \<Rightarrow> nat option" where
  "digit_of c = map_of [(CHR ''0'', 0), (CHR ''1'', 1), (CHR ''2'', 2), (CHR ''3'', 3),
     (CHR ''4'', 4), (CHR ''5'', 5), (CHR ''6'', 6), (CHR ''7'', 7), (CHR ''8'', 8),
     (CHR ''9'', 9)] c"

fun digits_val :: "nat \<Rightarrow> string \<Rightarrow> nat option" where
  "digits_val acc [] = Some acc"
| "digits_val acc (c # cs) =
     (case digit_of c of None \<Rightarrow> None | Some d \<Rightarrow> digits_val (10 * acc + d) cs)"

definition unsigned_float :: "string \<Rightarrow> real option" where
  "unsigned_float s =
     (let ip = takeWhile (\<lambda>c. c \<noteq> CHR ''.'') s;
          rest = dropWhile (\<lambda>c. c \<noteq> CHR ''.'') s;
          fp = (if rest = [] then [] else tl rest)
      in if ip = [] \<and> fp = [] then None
         else case (digits_val 0 ip, digits_val 0 fp) of
                (Some a, Some b) \<Rightarrow> Some (real a + real b / 10 ^ length fp)
              | _ \<Rightarrow> None)"

definition py_float :: "string \<Rightarrow> real option" where
  "py_float s =
     (case s of
        [] \<Rightarrow> None
      | c # cs \<Rightarrow>
          if c = CHR ''-'' then map_option uminus (unsigned_float cs)
          else if c = CHR ''+'' then unsigned_float cs
          else unsigned_float s)"

text \<open>Decimal digits of a natural number, as \<^verbatim>\<open>str\<close> prints them.\<close>

definition digit_char :: "nat \<Rightarrow> char" where
  "digit_char d = ''0123456789'' ! d"

fun show_nat :: "nat \<Rightarrow> string" where
  "show_nat n = (if n < 10 then [digit_char n] else show_nat (n div 10) @ [digit_char (n mod 10)])"

declare show_nat.simps [simp del]

text \<open>\<^verbatim>\<open>"%d" % x\<close> for a float: the integer part (truncation towards zero) in decimal.\<close>

definition fmt_d :: "real \<Rightarrow> string" where
  "fmt_d x = (if x \<le> - 1 then ''-'' @ show_nat (nat \<lfloor>- x\<rfloor>) else show_nat (nat \<lfloor>\<bar>x\<bar>\<rfloor>))"

text \<open>
  \<^verbatim>\<open>"%g" % x\<close> prints six significant digits and strips trailing zeros. It is modelled
  where that is exact and uses no exponent: \<open>x = 0\<close>, or \<open>10\<^sup>-\<^sup>4 \<le> |x| < 10\<^sup>6\<close> with at
  most six significant digits. \<open>None\<close> says that \<open>x\<close> is outside this domain (not that
  Python fails). \<open>decimals a\<close> is the number of digits after the point that make six
  significant ones.
\<close>

definition decimals :: "real \<Rightarrow> nat" where
  "decimals a =
     (if 100000 \<le> a then 0 else if 10000 \<le> a then 1 else if 1000 \<le> a then 2
      else if 100 \<le> a then 3 else if 10 \<le> a then 4 else if 1 \<le> a then 5
      else if 1 / 10 \<le> a then 6 else if 1 / 100 \<le> a then 7 else if 1 / 1000 \<le> a then 8
      else 9)"

definition strip_zeros :: "string \<Rightarrow> string" where
  "strip_zeros s = rev (dropWhile (\<lambda>c. c = CHR ''0'') (rev s))"

definition fmt_g :: "real \<Rightarrow> string option" where
  "fmt_g x =
     (if x = 0 then Some ''0''
      else if \<bar>x\<bar> < 1 / 10000 \<or> 1000000 \<le> \<bar>x\<bar> then None
      else
        let p = decimals \<bar>x\<bar>;
            m = \<bar>x\<bar> * 10 ^ p
        in if m \<noteq> of_int \<lfloor>m\<rfloor> then None
           else
             let n = nat \<lfloor>m\<rfloor>;
                 ds = show_nat (n mod 10 ^ p);
                 frac = strip_zeros (replicate (p - length ds) (CHR ''0'') @ ds)
             in Some ((if x < 0 then ''-'' else [])
                      @ show_nat (n div 10 ^ p)
                      @ (if frac = [] then [] else ''.'' @ frac)))"


text \<open>The formatter where \<open>fmt_g\<close> models it; outside that domain its value is unspecified.\<close>

definition py_g :: "real \<Rightarrow> string" where
  "py_g x = the (fmt_g x)"

text \<open>
  Modelled from the spec: \<^verbatim>\<open>verif.util.is_number\<close> is not among the sources. The spec
  calls it the "string-is-numeric" utility: a string is numeric when \<^verbatim>\<open>float\<close> reads it.
\<close>

definition is_number :: "(string \<Rightarrow> real option) \<Rightarrow> string \<Rightarrow> bool" where
  "is_number flt s = (case flt s of None \<Rightarrow> False | Some _ \<Rightarrow> True)"

section \<open>The naming codec of the legacy format\<close>

text \<open>
  \<^verbatim>\<open>Comps._comps_to_verif_threshold\<close>. The guard reads
  \<^verbatim>\<open>len(variable_name) >= 2 or variable_name[0] == "p"\<close>, so the empty name raises
  \<^verbatim>\<open>IndexError\<close>. The \<^verbatim>\<open>assert\<close> of the source compares a string with \<^verbatim>\<open>"."\<close>, takes
  \<^verbatim>\<open>np.where\<close> of that boolean and tests the length of the resulting one-element
  tuple: it always passes and is left out.
\<close>

definition comps_to_verif_threshold ::
  "(string \<Rightarrow> real option) \<Rightarrow> string \<Rightarrow> error + real option" where
  "comps_to_verif_threshold flt variable_name =
     (if variable_name = [] then Inl IndexError
      else if 2 \<le> length variable_name \<or> hd variable_name = CHR ''p'' then
        let v1 = replace ''m'' ''-'' variable_name;
            v2 = replace ''p0'' ''0.'' v1;
            v3 = replace ''p'' [] v2
        in if is_number flt v3
           then (case flt v3 of None \<Rightarrow> Inl ValueError | Some t \<Rightarrow> Inr (Some t))
           else Inr None
      else Inr None)"

text \<open>\<^verbatim>\<open>Comps._comps_to_verif_quantile\<close>.\<close>

definition comps_to_verif_quantile ::
  "(string \<Rightarrow> real option) \<Rightarrow> string \<Rightarrow> error + real option" where
  "comps_to_verif_quantile flt variable_name =
     (if variable_name = [] then Inl IndexError
      else if 2 \<le> length variable_name \<or> hd variable_name = CHR ''q'' then
        let v1 = replace ''q0'' ''0.'' variable_name;
            v2 = replace ''q'' [] v1
        in if is_number flt v2
           then (case flt v2 of
                   None \<Rightarrow> Inl ValueError
                 | Some f \<Rightarrow>
                     let temp = f / 100
                     in if 0 \<le> temp \<and> temp \<le> 1 then Inr (Some temp) else Inr None)
           else Inr None
      else Inr None)"

text \<open>
  \<^verbatim>\<open>Comps._verif_to_comps_threshold\<close>, with the two formatters \<^verbatim>\<open>"%g"\<close> and \<^verbatim>\<open>"%d"\<close>
  as parameters \<open>g\<close> and \<open>d\<close>.
\<close>

definition verif_to_comps_threshold ::
  "(real \<Rightarrow> string) \<Rightarrow> (real \<Rightarrow> string) \<Rightarrow> real \<Rightarrow> string" where
  "verif_to_comps_threshold g d threshold =
     (let variable_name =
            (if threshold = 0 then ''0''
             else if \<bar>threshold\<bar> < 1 then replace ''.'' [] (g threshold)
             else d threshold)
      in ''p'' @ replace ''-'' ''m'' variable_name)"

text \<open>\<^verbatim>\<open>Comps._verif_to_comps_quantile\<close>; \<open>None\<close> is the \<^verbatim>\<open>None\<close> it returns.\<close>

definition verif_to_comps_quantile :: "(real \<Rightarrow> string) \<Rightarrow> real \<Rightarrow> string option" where
  "verif_to_comps_quantile g quantile =
     (if quantile < 0 \<or> quantile > 1 then None
      else Some (''q'' @ (if quantile = 0 then ''0''
                          else replace ''.'' [] (g (quantile * 100)))))"


subsection \<open>The codec on the sample values\<close>

lemma fmt_g_sample:
  "fmt_g (- (1 / 2)) = Some ''-0.5''"
  "fmt_g (3 / 10) = Some ''0.3''"
  "fmt_g 30 = Some ''30''"
  "fmt_g 50 = Some ''50''"
  "fmt_g 100 = Some ''100''"
  by (simp add: fmt_g_def decimals_def Let_def,
      simp add: strip_zeros_def show_nat.simps digit_char_def)+

lemma fmt_d_sample: "fmt_d (- 2) = ''-2''" "fmt_d 5 = ''5''"
  by (simp add: fmt_d_def, simp add: show_nat.simps digit_char_def)+

lemma encode_threshold_sample:
  "verif_to_comps_threshold py_g fmt_d (- 2) = ''pm2''"
  "verif_to_comps_threshold py_g fmt_d (- (1 / 2)) = ''pm05''"
  "verif_to_comps_threshold py_g fmt_d 0 = ''p0''"
  "verif_to_comps_threshold py_g fmt_d (3 / 10) = ''p03''"
  "verif_to_comps_threshold py_g fmt_d 5 = ''p5''"
  by (simp_all add: verif_to_comps_threshold_def py_g_def fmt_g_sample fmt_d_sample)

lemma encode_quantile_sample:
  "verif_to_comps_quantile py_g 0 = Some ''q0''"
  "verif_to_comps_quantile py_g (3 / 10) = Some ''q30''"
  "verif_to_comps_quantile py_g (1 / 2) = Some ''q50''"
  "verif_to_comps_quantile py_g 1 = Some ''q100''"
  by (simp_all add: verif_to_comps_quantile_def py_g_def fmt_g_sample)

lemma py_float_sample:
  "py_float ''-2'' = Some (- 2)"
  "py_float ''-05'' = Some (- 5)"
  "py_float ''0.'' = Some 0"
  "py_float ''0.3'' = Some (3 / 10)"
  "py_float ''5'' = Some 5"
  "py_float ''30'' = Some 30"
  "py_float ''50'' = Some 50"
  "py_float ''100'' = Some 100"
  by (simp_all add: py_float_def unsigned_float_def digit_of_def)

lemma decode_threshold_sample:
  "comps_to_verif_threshold py_float ''pm2'' = Inr (Some (- 2))"
  "comps_to_verif_threshold py_float ''pm05'' = Inr (Some (- 5))"
  "comps_to_verif_threshold py_float ''p0'' = Inr (Some 0)"
  "comps_to_verif_threshold py_float ''p03'' = Inr (Some (3 / 10))"
  "comps_to_verif_threshold py_float ''p5'' = Inr (Some 5)"
  by (simp_all add: comps_to_verif_threshold_def is_number_def py_float_sample)

lemma decode_quantile_sample:
  "comps_to_verif_quantile py_float ''q0'' = Inr (Some 0)"
  "comps_to_verif_quantile py_float ''q30'' = Inr (Some (3 / 10))"
  "comps_to_verif_quantile py_float ''q50'' = Inr (Some (1 / 2))"
  "comps_to_verif_quantile py_float ''q100'' = Inr (Some 1)"
  by (simp_all add: comps_to_verif_quantile_def is_number_def py_float_sample)

text \<open>
  C1. On the sample of thresholds \<open>-2, -0.5, 0, 0.3, 5\<close> and of quantiles
  \<open>0, 0.3, 0.5, 1\<close>, decoding the encoded token gives the value back, except at the
  threshold \<open>-0.5\<close>: its token is \<^verbatim>\<open>pm05\<close>, in which no \<^verbatim>\<open>p0\<close> occurs once \<^verbatim>\<open>m\<close>
  has become \<^verbatim>\<open>-\<close>, so the decoder reads \<^verbatim>\<open>-05\<close>, the number \<open>-5\<close>.
\<close>

theorem codec_sample_roundtrip_but_negative_fraction:
  "map (\<lambda>t. comps_to_verif_threshold py_float (verif_to_comps_threshold py_g fmt_d t))
       [- 2, - (1 / 2), 0, 3 / 10, 5]
     = [Inr (Some (- 2)), Inr (Some (- 5)), Inr (Some 0), Inr (Some (3 / 10)), Inr (Some 5)]
   \<and> map (\<lambda>q. map_option (comps_to_verif_quantile py_float) (verif_to_comps_quantile py_g q))
       [0, 3 / 10, 1 / 2, 1]
     = [Some (Inr (Some 0)), Some (Inr (Some (3 / 10))), Some (Inr (Some (1 / 2))),
        Some (Inr (Some 1))]"
  by (simp add: encode_threshold_sample encode_quantile_sample decode_threshold_sample
      decode_quantile_sample)


section \<open>Files and the validity predicates\<close>

text \<open>
  What the module can observe of a path: whether it exists, what
  \<^verbatim>\<open>netcdf(filename, 'r')\<close> gives (\<open>None\<close> when the open raises), and its lines as a
  text file. Of a NetCDF file only the global attributes and the names of the stored
  variables matter here.
\<close>

record ncfile =
  attrs :: "string \<rightharpoonup> string"
  variables :: "string list"

record infile =
  path_exists :: bool
  as_netcdf :: "ncfile option"
  text_lines :: "string list"

definition netcdf :: "infile \<Rightarrow> error + ncfile" where
  "netcdf f = (case as_netcdf f of None \<Rightarrow> Inl IOError | Some nc \<Rightarrow> Inr nc)"

definition hasattr :: "ncfile \<Rightarrow> string \<Rightarrow> bool" where
  "hasattr nc name \<longleftrightarrow> attrs nc name \<noteq> None"

definition getattr :: "ncfile \<Rightarrow> string \<Rightarrow> error + string" where
  "getattr nc name = (case attrs nc name of None \<Rightarrow> Inl AttributeError | Some v \<Rightarrow> Inr v)"

text \<open>
  \<^verbatim>\<open>Comps.is_valid\<close>. The body of the \<^verbatim>\<open>try\<close> tests for the attribute \<^verbatim>\<open>Convensions\<close>,
  reads the attribute \<^verbatim>\<open>Convension\<close>, sets \<^verbatim>\<open>valid\<close> and then returns \<^verbatim>\<open>True\<close>;
  the bare \<^verbatim>\<open>except\<close> turns every exception into \<^verbatim>\<open>False\<close>.
\<close>

definition Comps_is_valid_try :: "infile \<Rightarrow> error + bool" where
  "Comps_is_valid_try f =
     bnd (netcdf f) (\<lambda>nc.
     bnd (if hasattr nc ''Convensions''
          then bnd (getattr nc ''Convension'') (\<lambda>v. Inr (v = ''comps''))
          else Inr False) (\<lambda>valid.
     Inr True))"

definition Comps_is_valid :: "infile \<Rightarrow> bool" where
  "Comps_is_valid f = (case Comps_is_valid_try f of Inl e \<Rightarrow> False | Inr b \<Rightarrow> b)"

text \<open>\<^verbatim>\<open>NetcdfCf.is_valid\<close>.\<close>

definition NetcdfCf_is_valid :: "infile \<Rightarrow> bool" where
  "NetcdfCf_is_valid f =
     (case netcdf f of
        Inl e \<Rightarrow> False
      | Inr nc \<Rightarrow>
          (case (if hasattr nc ''Conventions''
                 then bnd (getattr nc ''Conventions'') (\<lambda>v. Inr (v = ''verif_1.0.0''))
                 else Inr False) of
             Inl e \<Rightarrow> False
           | Inr valid \<Rightarrow> valid))"

text \<open>\<^verbatim>\<open>Text.is_valid\<close>.\<close>

definition Text_is_valid :: "infile \<Rightarrow> bool" where
  "Text_is_valid f = True"

section \<open>The format dispatcher\<close>

datatype decoder = NetcdfCf | Comps | Text

fun is_valid :: "decoder \<Rightarrow> infile \<Rightarrow> bool" where
  "is_valid NetcdfCf f = NetcdfCf_is_valid f"
| "is_valid Comps f = Comps_is_valid f"
| "is_valid Text f = Text_is_valid f"

text \<open>
  \<^verbatim>\<open>get_input\<close>. \<^verbatim>\<open>verif.util.error\<close> does not return, so the missing file ends the
  call. \<open>ctor d f\<close> stands for the constructor call \<^verbatim>\<open>verif.input.d(filename)\<close>,
  which may itself fail.
\<close>

definition get_input :: "(decoder \<Rightarrow> infile \<Rightarrow> error + 'a) \<Rightarrow> infile \<Rightarrow> error + 'a" where
  "get_input ctor f =
     (if \<not> path_exists f then Inl FileNotFound
      else if NetcdfCf_is_valid f then ctor NetcdfCf f
      else if Comps_is_valid f then ctor Comps f
      else if Text_is_valid f then ctor Text f
      else Inl UnrecognizedFormat)"

text \<open>Three files: no convention attribute, the legacy tag alone, both spellings.\<close>

definition untagged_nc :: infile where
  "untagged_nc = \<lparr>path_exists = True,
     as_netcdf = Some \<lparr>attrs = Map.empty, variables = []\<rparr>, text_lines = []\<rparr>"

definition legacy_nc :: infile where
  "legacy_nc = \<lparr>path_exists = True,
     as_netcdf = Some \<lparr>attrs = [''Convensions'' \<mapsto> ''comps''], variables = []\<rparr>,
     text_lines = []\<rparr>"

definition other_nc :: infile where
  "other_nc = \<lparr>path_exists = True,
     as_netcdf = Some \<lparr>attrs = [''Convensions'' \<mapsto> ''x'', ''Convension'' \<mapsto> ''other''],
                       variables = []\<rparr>,
     text_lines = []\<rparr>"

lemma bnd_simps [simp]: "bnd (Inl e) k = Inl e" "bnd (Inr x) k = k x"
  by (simp_all add: bnd_def)

lemma Comps_is_valid_iff:
  "Comps_is_valid f =
     (case as_netcdf f of
        None \<Rightarrow> False
      | Some nc \<Rightarrow> attrs nc ''Convensions'' = None \<or> attrs nc ''Convension'' \<noteq> None)"
  by (auto simp: Comps_is_valid_def Comps_is_valid_try_def netcdf_def hasattr_def getattr_def
      split: option.splits)

text \<open>
  C2. \<^verbatim>\<open>Comps.is_valid\<close> does not test for the value \<^verbatim>\<open>comps\<close>. It accepts a readable
  NetCDF file that carries no convention attribute at all, it rejects the file that
  carries \<^verbatim>\<open>Convensions = "comps"\<close> (reading the other spelling \<^verbatim>\<open>Convension\<close> raises),
  and it accepts a file with both attributes whatever their values.
\<close>

theorem Comps_is_valid_ignores_tag:
  "Comps_is_valid untagged_nc = True
   \<and> Comps_is_valid legacy_nc = False
   \<and> Comps_is_valid other_nc = True"
  by (simp add: Comps_is_valid_iff untagged_nc_def legacy_nc_def other_nc_def)

text \<open>
  C3. A path that does not exist fails with the file-not-found error, whatever the
  predicates would say. For a path that exists the constructor of the first decoder of
  \<open>[NetcdfCf, Comps, Text]\<close> whose predicate accepts is called and its result returned;
  such a decoder always exists, so the unrecognized-format branch is not taken.
\<close>

theorem get_input_dispatch:
  "(\<not> path_exists f \<longrightarrow> get_input ctor f = Inl FileNotFound)
   \<and> (path_exists f \<longrightarrow>
        (\<exists>d. find (\<lambda>d. is_valid d f) [NetcdfCf, Comps, Text] = Some d
             \<and> get_input ctor f = ctor d f)
        \<and> get_input (\<lambda>d f. Inr d) f \<noteq> Inl UnrecognizedFormat)"
  by (simp add: get_input_def Text_is_valid_def)

theorem get_input_dispatch_witness:
  "path_exists legacy_nc
   \<and> find (\<lambda>d. is_valid d legacy_nc) [NetcdfCf, Comps, Text] = Some Text
   \<and> get_input (\<lambda>d f. Inr d) legacy_nc = Inr Text
   \<and> \<not> path_exists (legacy_nc\<lparr>path_exists := False\<rparr>)
   \<and> get_input (\<lambda>d f. Inr d) (legacy_nc\<lparr>path_exists := False\<rparr>) = Inl FileNotFound"
  using get_input_dispatch [of legacy_nc "\<lambda>d f. Inr d"]
    get_input_dispatch [of "legacy_nc\<lparr>path_exists := False\<rparr>" "\<lambda>d f. Inr d"]
  by (simp add: Comps_is_valid_iff NetcdfCf_is_valid_def netcdf_def hasattr_def legacy_nc_def
      Text_is_valid_def)


section \<open>The text decoder\<close>

subsection \<open>Data\<close>

text \<open>
  Modelled from the spec: the class \<^verbatim>\<open>verif.location.Location\<close> is not among the
  sources. The spec gives it as the record of an identifier, a latitude, a longitude
  and an elevation, built by a constructor that takes the four in this order.
\<close>

record location =
  loc_id :: fval
  lat :: fval
  lon :: fval
  elev :: fval

text \<open>The two kinds of call of \<^verbatim>\<open>verif.util.warning\<close> in the text decoder.\<close>

datatype warning =
    IgnoringLine string
  | ConflictingInfo fval fval fval fval fval fval

text \<open>
  A Python \<^verbatim>\<open>dict\<close> is an association list with one entry for each key:
  \<open>map_of\<close> looks a key up and \<open>AList.update\<close> assigns to it. The keys of the sparse
  tables are the tuples \<^verbatim>\<open>(date, offset, lat, lon, elev)\<close> and, for the probabilistic
  columns, the same with the quantile or threshold as a sixth component.

  A Python \<^verbatim>\<open>set\<close> is kept as the list of the values handed to \<^verbatim>\<open>add\<close>, in the order
  of the calls. The language does not say in which order \<^verbatim>\<open>list(s)\<close> enumerates a
  set, so the enumeration is a parameter of the decoder: \<open>ordF\<close> for the sets of floats
  and \<open>ordL\<close> for the set of locations, each a function of the calls of \<^verbatim>\<open>add\<close>. The
  equality of \<^verbatim>\<open>Location\<close> objects, which decides what the set of locations keeps
  apart, is part of \<open>ordL\<close>.
\<close>

type_synonym key = "fval \<times> fval \<times> fval \<times> fval \<times> fval"
type_synonym lkey = "fval \<times> fval \<times> fval \<times> fval \<times> fval \<times> fval"
type_synonym ('k, 'v) dict = "('k \<times> 'v) list"

record text_state =
  variable_name :: string
  units_name :: string
  dates_set :: "fval list"
  offsets_set :: "fval list"
  locations_set :: "location list"
  quantiles_set :: "fval list"
  thresholds_set :: "fval list"
  obs_tbl :: "(key, fval) dict"
  fcst_tbl :: "(key, fval) dict"
  cdf_tbl :: "(lkey, fval) dict"
  pit_tbl :: "(key, fval) dict"
  x_tbl :: "(lkey, fval) dict"
  indices :: "(string, nat) dict"
  header :: "string list option"
  offset :: fval
  date :: fval
  locationInfo :: "(fval, location) dict"
  shownConflictingWarning :: bool
  warnings :: "warning list"

text \<open>The state before the first line (lines 354 to 380 of the source).\<close>

definition initial_state :: text_state where
  "initial_state = \<lparr>variable_name = ''Unknown'', units_name = ''Unknown units'',
     dates_set = [], offsets_set = [], locations_set = [], quantiles_set = [],
     thresholds_set = [], obs_tbl = [], fcst_tbl = [], cdf_tbl = [], pit_tbl = [],
     x_tbl = [], indices = [], header = None, offset = Fin 0, date = Fin 0,
     locationInfo = [], shownConflictingWarning = False, warnings = []\<rparr>"

subsection \<open>Reading one line\<close>

text \<open>\<^verbatim>\<open>Text._clean\<close>: parse a float and turn \<open>-999\<close> into \<^verbatim>\<open>np.nan\<close>.\<close>

definition clean :: "(string \<Rightarrow> real option) \<Rightarrow> string \<Rightarrow> error + fval" where
  "clean flt v =
     (case flt v of None \<Rightarrow> Inl ValueError
      | Some fvalue \<Rightarrow> Inr (if fvalue = - 999 then NaN else Fin fvalue))"

text \<open>\<^verbatim>\<open>Text._get_quantile_fields\<close> and \<^verbatim>\<open>Text._get_threshold_fields\<close>. The tokens
  come from \<^verbatim>\<open>split\<close> and are never empty.\<close>

fun starts_with :: "char \<Rightarrow> string \<Rightarrow> bool" where
  "starts_with c [] = False"
| "starts_with c (a # att) = (a = c)"

definition get_quantile_fields :: "string list \<Rightarrow> string list" where
  "get_quantile_fields atts = filter (\<lambda>att. starts_with (CHR ''q'') att) atts"

definition get_threshold_fields :: "string list \<Rightarrow> string list" where
  "get_threshold_fields atts =
     filter (\<lambda>att. starts_with (CHR ''p'') att \<and> att \<noteq> ''pit'') atts"

text \<open>
  The header: \<^verbatim>\<open>indices[att] = i\<close> for every column (each branch of the chain of
  comparisons in the source makes this assignment), then the test for the two
  required columns.
\<close>

definition header_indices :: "string list \<Rightarrow> (string, nat) dict" where
  "header_indices h = fold (\<lambda>(i, att) ind. AList.update att i ind) (enumerate 0 h) []"

definition parse_header :: "text_state \<Rightarrow> string list \<Rightarrow> error + text_state" where
  "parse_header st row =
     (let ind = header_indices row
      in if map_of ind ''obs'' = None then Inl (MissingColumn ''obs'')
         else if map_of ind ''fcst'' = None then Inl (MissingColumn ''fcst'')
         else Inr (st\<lparr>header := Some row, indices := ind\<rparr>))"

text \<open>
  The test \<^verbatim>\<open>len(row) is not len(header)\<close> compares the identity of two integer
  objects. CPython keeps one object for each integer from \<open>-5\<close> to \<open>256\<close> and makes a
  new object for every other result of \<^verbatim>\<open>len\<close>, so two equal lengths above \<open>256\<close> are
  not the same object.
\<close>

definition len_is_not :: "nat \<Rightarrow> nat \<Rightarrow> bool" where
  "len_is_not m n \<longleftrightarrow> 256 < m \<or> m \<noteq> n"

text \<open>\<^verbatim>\<open>row[indices[name]]\<close>.\<close>

definition column :: "text_state \<Rightarrow> string list \<Rightarrow> string \<Rightarrow> error + string" where
  "column st row name =
     (case map_of (indices st) name of
        None \<Rightarrow> Inl KeyError
      | Some i \<Rightarrow> if i < length row then Inr (row ! i) else Inl IndexError)"

text \<open>\<^verbatim>\<open>self._clean(row[indices[name]])\<close>.\<close>

definition cleaned ::
  "(string \<Rightarrow> real option) \<Rightarrow> text_state \<Rightarrow> string list \<Rightarrow> string \<Rightarrow> error + fval" where
  "cleaned flt st row name = bnd (column st row name) (clean flt)"

text \<open>\<^verbatim>\<open>if(name in indices): v = self._clean(row[indices[name]])\<close>, with \<open>v\<close> as it was before.\<close>

definition optional ::
  "(string \<Rightarrow> real option) \<Rightarrow> text_state \<Rightarrow> string list \<Rightarrow> string \<Rightarrow> fval \<Rightarrow> error + fval" where
  "optional flt st row name v =
     (if map_of (indices st) name = None then Inr v
      else cleaned flt st row name)"

text \<open>\<^verbatim>\<open>abs(a - b) > tol\<close> on floats: false when either is not a number.\<close>

fun differs :: "fval \<Rightarrow> fval \<Rightarrow> real \<Rightarrow> bool" where
  "differs (Fin a) (Fin b) tol = (\<bar>a - b\<bar> > tol)"
| "differs _ _ tol = False"

definition conflicting :: "location \<Rightarrow> fval \<Rightarrow> fval \<Rightarrow> fval \<Rightarrow> bool" where
  "conflicting l currLat currLon currElev \<longleftrightarrow>
     (\<not> isnan currLat \<and> differs currLat (lat l) (1 / 10000))
     \<or> (\<not> isnan currLon \<and> differs currLon (lon l) (1 / 10000))
     \<or> (\<not> isnan currElev \<and> differs currElev (elev l) (1 / 1000))"

text \<open>
  Lines 450 to 468: look the identifier up among the stored locations; warn once about
  conflicting information, or register a new location.
\<close>

definition known_location :: "text_state \<Rightarrow> fval \<Rightarrow> location option" where
  "known_location st i = (if isnan i then None else map_of (locationInfo st) i)"

definition resolve_location :: "text_state \<Rightarrow> fval \<Rightarrow> fval \<Rightarrow> fval \<Rightarrow> fval \<Rightarrow> text_state" where
  "resolve_location st i currLat currLon currElev =
     (case known_location st i of
        Some l \<Rightarrow>
          if \<not> shownConflictingWarning st \<and> conflicting l currLat currLon currElev
          then st\<lparr>warnings := warnings st
                      @ [ConflictingInfo currLat currLon currElev (lat l) (lon l) (elev l)],
                  shownConflictingWarning := True\<rparr>
          else st
      | None \<Rightarrow>
          let location = \<lparr>loc_id = i,
                lat = (if isnan currLat then Fin 0 else currLat),
                lon = (if isnan currLon then Fin 0 else currLon),
                elev = (if isnan currElev then Fin 0 else currElev)\<rparr>
          in st\<lparr>locations_set := locations_set st @ [location],
                locationInfo := AList.update i location (locationInfo st)\<rparr>)"

text \<open>
  The loops over the quantile and the threshold columns (lines 480 to 489) have one
  shape: read the level from the name of the column, add it to the set, store the
  value of the row under the key extended by the level.
\<close>

fun level_loop ::
  "(string \<Rightarrow> real option) \<Rightarrow> text_state \<Rightarrow> string list \<Rightarrow> key \<Rightarrow> string list
   \<Rightarrow> fval list \<times> (lkey, fval) dict \<Rightarrow> error + fval list \<times> (lkey, fval) dict" where
  "level_loop flt st row k [] acc = Inr acc"
| "level_loop flt st row k (fld # flds) acc =
     (case flt (tl fld) of
        None \<Rightarrow> Inl ValueError
      | Some level \<Rightarrow>
          bnd (cleaned flt st row fld) (\<lambda>v.
          case k of (d, off, la, lo, el) \<Rightarrow>
            level_loop flt st row k flds
              (fst acc @ [Fin level], AList.update (d, off, la, lo, el, Fin level) v (snd acc))))"

text \<open>Lines 478 and 479: the value of the column \<^verbatim>\<open>pit\<close>, when the header has one.\<close>

definition store_pit ::
  "(string \<Rightarrow> real option) \<Rightarrow> text_state \<Rightarrow> string list \<Rightarrow> key \<Rightarrow> error + (key, fval) dict" where
  "store_pit flt st row k =
     (if map_of (indices st) ''pit'' = None then Inr (pit_tbl st)
      else bnd (cleaned flt st row ''pit'') (\<lambda>p. Inr (AList.update k p (pit_tbl st))))"

text \<open>A data row (lines 426 to 489), for the header \<open>h\<close>.\<close>

definition data_row ::
  "(string \<Rightarrow> real option) \<Rightarrow> text_state \<Rightarrow> string list \<Rightarrow> string list \<Rightarrow> error + text_state" where
  "data_row flt st h row =
     (if len_is_not (length row) (length h) then Inl IncorrectNumberOfColumns
      else
        bnd (optional flt st row ''date'' (date st)) (\<lambda>d.
        bnd (optional flt st row ''offset'' (offset st)) (\<lambda>off.
        bnd (optional flt st row ''id'' NaN) (\<lambda>i.
        bnd (optional flt st row ''lat'' NaN) (\<lambda>currLat.
        bnd (optional flt st row ''lon'' NaN) (\<lambda>currLon.
        bnd (optional flt st row ''elev'' NaN) (\<lambda>currElev.
        let st1 = resolve_location
                    (st\<lparr>date := d, dates_set := dates_set st @ [d],
                        offset := off, offsets_set := offsets_set st @ [off]\<rparr>)
                    i currLat currLon currElev
        in case map_of (locationInfo st1) i of
             None \<Rightarrow> Inl KeyError
           | Some l \<Rightarrow>
               let k = (d, off, lat l, lon l, elev l)
               in
               bnd (cleaned flt st row ''obs'') (\<lambda>ob.
               bnd (cleaned flt st row ''fcst'') (\<lambda>fc.
               bnd (store_pit flt st row k) (\<lambda>pit'.
               bnd (level_loop flt st row k (get_quantile_fields h)
                      (quantiles_set st, x_tbl st)) (\<lambda>qx.
               bnd (level_loop flt st row k (get_threshold_fields h)
                      (thresholds_set st, cdf_tbl st)) (\<lambda>tc.
               Inr (st1\<lparr>obs_tbl := AList.update k ob (obs_tbl st),
                        fcst_tbl := AList.update k fc (fcst_tbl st),
                        pit_tbl := pit',
                        quantiles_set := fst qx, x_tbl := snd qx,
                        thresholds_set := fst tc, cdf_tbl := snd tc\<rparr>)))))))))))))"

text \<open>A line that starts with \<^verbatim>\<open>#\<close> (lines 386 to 394).\<close>

definition comment_line :: "text_state \<Rightarrow> string \<Rightarrow> string \<Rightarrow> error + text_state" where
  "comment_line st rowstr rest =
     (case split rest of
        [] \<Rightarrow> Inl IndexError
      | c # args \<Rightarrow>
          if c = ''variable:'' then Inr (st\<lparr>variable_name := join args\<rparr>)
          else if c = ''units:'' then
            (case args of [] \<Rightarrow> Inl IndexError | u # _ \<Rightarrow> Inr (st\<lparr>units_name := u\<rparr>))
          else Inr (st\<lparr>warnings := warnings st @ [IgnoringLine rowstr]\<rparr>))"

text \<open>The body of the loop over the lines of the file.\<close>

definition read_line :: "(string \<Rightarrow> real option) \<Rightarrow> text_state \<Rightarrow> string \<Rightarrow> error + text_state" where
  "read_line flt st rowstr =
     (case rowstr of
        [] \<Rightarrow> Inl IndexError
      | c # rest \<Rightarrow>
          if c = CHR ''#'' then comment_line st rowstr rest
          else (case header st of
                  None \<Rightarrow> parse_header st (split rowstr)
                | Some h \<Rightarrow> data_row flt st h (split rowstr)))"

fun read_lines :: "(string \<Rightarrow> real option) \<Rightarrow> text_state \<Rightarrow> string list \<Rightarrow> error + text_state" where
  "read_lines flt st [] = Inr st"
| "read_lines flt st (rowstr # rest) = bnd (read_line flt st rowstr) (\<lambda>st'. read_lines flt st' rest)"


subsection \<open>From the sparse tables to the dense arrays\<close>

text \<open>
  A numpy array is modelled by its shape and its cells as nested lists. The source
  allocates each array full of not-a-number and then assigns, for every index, the
  entry of the sparse table when the key is in the table; \<open>cell\<close> is the value that
  leaves in one place of the array.
\<close>

record array3 =
  shape3 :: "nat \<times> nat \<times> nat"
  cells3 :: "fval list list list"

record array4 =
  shape4 :: "nat \<times> nat \<times> nat \<times> nat"
  cells4 :: "fval list list list list"

definition cell :: "('k, fval) dict \<Rightarrow> 'k \<Rightarrow> fval" where
  "cell tbl k = (case map_of tbl k of None \<Rightarrow> NaN | Some v \<Rightarrow> v)"

definition dense3 :: "(key, fval) dict \<Rightarrow> fval list \<Rightarrow> fval list \<Rightarrow> location list \<Rightarrow> array3" where
  "dense3 tbl ds offs ls =
     \<lparr>shape3 = (length ds, length offs, length ls),
      cells3 = map (\<lambda>d. map (\<lambda>off. map (\<lambda>l. cell tbl (d, off, lat l, lon l, elev l)) ls) offs) ds\<rparr>"

definition dense4 ::
  "(lkey, fval) dict \<Rightarrow> fval list \<Rightarrow> fval list \<Rightarrow> location list \<Rightarrow> fval list \<Rightarrow> array4" where
  "dense4 tbl ds offs ls vs =
     \<lparr>shape4 = (length ds, length offs, length ls, length vs),
      cells4 = map (\<lambda>d. map (\<lambda>off. map (\<lambda>l.
                 map (\<lambda>v. cell tbl (d, off, lat l, lon l, elev l, v)) vs) ls) offs) ds\<rparr>"

text \<open>Lines 539 to 553: the largest identifier in use, and new identifiers for the
  locations that have none.\<close>

fun greater :: "fval \<Rightarrow> fval \<Rightarrow> bool" where
  "greater (Fin a) (Fin b) = (a > b)"
| "greater _ _ = False"

fun max_location_id :: "fval \<Rightarrow> location list \<Rightarrow> fval" where
  "max_location_id m [] = m"
| "max_location_id m (l # ls) =
     max_location_id (if isnan m then loc_id l
                      else if greater (loc_id l) m then loc_id l else m) ls"

definition first_counter :: "fval \<Rightarrow> real" where
  "first_counter maxLocationId = (case maxLocationId of NaN \<Rightarrow> 0 | Fin m \<Rightarrow> m + 1)"

fun assign_ids :: "real \<Rightarrow> location list \<Rightarrow> location list" where
  "assign_ids counter [] = []"
| "assign_ids counter (l # ls) =
     (if isnan (loc_id l) then l\<lparr>loc_id := Fin counter\<rparr> # assign_ids (counter + 1) ls
      else l # assign_ids counter ls)"

text \<open>What \<^verbatim>\<open>Text.__init__\<close> leaves in the object.\<close>

record snapshot =
  variable :: "string \<times> string"
  dates :: "fval list"
  offsets :: "fval list"
  locations :: "location list"
  thresholds :: "fval list"
  quantiles :: "fval list"
  obs :: array3
  deterministic :: array3
  pit :: "array3 option"
  threshold_scores :: array4
  quantile_scores :: array4

definition assemble ::
  "(fval list \<Rightarrow> fval list) \<Rightarrow> (location list \<Rightarrow> location list) \<Rightarrow> text_state \<Rightarrow> snapshot" where
  "assemble ordF ordL st =
     (let ds = ordF (dates_set st);
          offs = ordF (offsets_set st);
          ls = ordL (locations_set st);
          qs = ordF (quantiles_set st);
          ts = ordF (thresholds_set st)
      in \<lparr>variable = (variable_name st, units_name st),
          dates = ds, offsets = offs,
          locations = assign_ids (first_counter (max_location_id NaN ls)) ls,
          thresholds = ts, quantiles = qs,
          obs = dense3 (obs_tbl st) ds offs ls,
          deterministic = dense3 (fcst_tbl st) ds offs ls,
          pit = (if pit_tbl st = [] then None else Some (dense3 (pit_tbl st) ds offs ls)),
          threshold_scores = dense4 (cdf_tbl st) ds offs ls ts,
          quantile_scores = dense4 (x_tbl st) ds offs ls qs\<rparr>)"

text \<open>
  \<^verbatim>\<open>Text.__init__\<close>, on the lines of the file. When a line raises, the load is
  aborted and no object is built: the result is the error alone. Opening the file is
  not modelled; \<^verbatim>\<open>get_input\<close> has checked before that the path exists.
\<close>

definition Text_init ::
  "(string \<Rightarrow> real option) \<Rightarrow> (fval list \<Rightarrow> fval list) \<Rightarrow> (location list \<Rightarrow> location list)
   \<Rightarrow> string list \<Rightarrow> error + snapshot" where
  "Text_init flt ordF ordL rows =
     bnd (read_lines flt initial_state rows) (\<lambda>st. Inr (assemble ordF ordL st))"

subsection \<open>Enumerations of a set\<close>

text \<open>
  What \<^verbatim>\<open>list(s)\<close> is known to give for a set of floats: each value that was added,
  once. \<open>first_seen\<close> is the enumeration in the order of the first occurrences, which is
  the order the specification asks for. \<open>ascending\<close> enumerates by value; it is CPython's
  order for a set of at most five integral floats between \<open>0\<close> and \<open>7\<close>, each of which
  is its own hash and sits in the slot of that number in the table of eight slots that
  \<^verbatim>\<open>list\<close> scans from slot \<open>0\<close>.
\<close>

definition enumerates :: "('a list \<Rightarrow> 'a list) \<Rightarrow> bool" where
  "enumerates ord \<longleftrightarrow> (\<forall>xs. set (ord xs) = set xs \<and> distinct (ord xs))"

definition first_seen :: "'a list \<Rightarrow> 'a list" where
  "first_seen xs = rev (remdups (rev xs))"

definition ascending :: "fval list \<Rightarrow> fval list" where
  "ascending xs = sort_key (\<lambda>v. case v of NaN \<Rightarrow> 0 | Fin r \<Rightarrow> r) (first_seen xs)"

subsection \<open>Basic facts about the reader\<close>

lemma bnd_Inr_iff: "bnd m k = Inr y \<longleftrightarrow> (\<exists>x. m = Inr x \<and> k x = Inr y)"
  by (cases m) simp_all

lemma bnd_Inl_iff: "bnd m k = Inl e \<longleftrightarrow> m = Inl e \<or> (\<exists>x. m = Inr x \<and> k x = Inl e)"
  by (cases m) simp_all

lemma split_from_token:
  "list_all (\<lambda>c. \<not> is_space c) w \<Longrightarrow> split_from cur (w @ rest) = split_from (rev w @ cur) rest"
  by (induction w arbitrary: cur) simp_all

definition token :: "string \<Rightarrow> bool" where
  "token w \<longleftrightarrow> w \<noteq> [] \<and> list_all (\<lambda>c. \<not> is_space c) w"

lemma split_join: "list_all token ws \<Longrightarrow> split (join ws) = ws"
proof (induction ws rule: join.induct)
  case 1
  show ?case by (simp add: split_def)
next
  case (2 x)
  then have "split_from [] (x @ []) = split_from (rev x @ []) []"
    by (intro split_from_token) (simp add: token_def)
  with 2 show ?case by (simp add: split_def token_def)
next
  case (3 x y ys)
  from 3 have "split_from [] (x @ CHR '' '' # join (y # ys))
               = split_from (rev x @ []) (CHR '' '' # join (y # ys))"
    by (intro split_from_token) (simp add: token_def)
  with 3 show ?case by (simp add: split_def token_def is_space_def)
qed

lemma map_of_fold_update:
  "map_of (fold (\<lambda>(i, att) ind. AList.update att i ind) xs ind0) a = None
   \<longleftrightarrow> map_of ind0 a = None \<and> a \<notin> snd ` set xs"
  by (induction xs arbitrary: ind0) (auto simp: update_conv' image_iff split: prod.splits)

lemma snd_set_enumerate: "snd ` set (enumerate n xs) = set xs"
  by (induction xs arbitrary: n) auto

lemma header_indices_None: "map_of (header_indices h) a = None \<longleftrightarrow> a \<notin> set h"
  by (simp add: header_indices_def map_of_fold_update snd_set_enumerate)

lemma map_of_fold_update_less:
  "map_of (fold (\<lambda>(i, att) ind. AList.update att i ind) (enumerate n xs) ind0) a = Some j
   \<Longrightarrow> map_of ind0 a = Some j \<or> (n \<le> j \<and> j < n + length xs \<and> xs ! (j - n) = a)"
proof (induction xs arbitrary: ind0 n)
  case Nil
  then show ?case by simp
next
  case (Cons x xs)
  from Cons.prems have "map_of (fold (\<lambda>(i, att) ind. AList.update att i ind)
      (enumerate (Suc n) xs) (AList.update x n ind0)) a = Some j"
    by simp
  from Cons.IH [OF this] show ?case
    by (auto simp: update_conv' nth_Cons' Suc_diff_le split: if_splits)
qed

lemma header_indices_Some:
  "map_of (header_indices h) a = Some j \<Longrightarrow> j < length h \<and> h ! j = a"
  using map_of_fold_update_less [of 0 h "[]" a j] by (simp add: header_indices_def)

subsection \<open>Which errors a data row can raise\<close>

lemma cleaned_not_arity: "cleaned flt st row name \<noteq> Inl IncorrectNumberOfColumns"
  by (auto simp: cleaned_def bnd_Inl_iff column_def clean_def split: option.splits)

lemma optional_not_arity: "optional flt st row name v \<noteq> Inl IncorrectNumberOfColumns"
  by (simp add: optional_def cleaned_not_arity)

lemma level_loop_not_arity:
  "level_loop flt st row k flds acc \<noteq> Inl IncorrectNumberOfColumns"
proof (induction flds arbitrary: acc)
  case Nil
  show ?case by simp
next
  case (Cons fld flds)
  obtain d off la lo el where k: "k = (d, off, la, lo, el)"
    by (cases k) auto
  show ?case
    using Cons.IH cleaned_not_arity [of flt st row fld]
    by (simp add: k bnd_Inl_iff split: option.splits del: bnd_simps)
qed

lemma store_pit_not_arity: "store_pit flt st row k \<noteq> Inl IncorrectNumberOfColumns"
  by (auto simp: store_pit_def bnd_Inl_iff cleaned_not_arity)

lemma data_row_arity:
  "data_row flt st h row = Inl IncorrectNumberOfColumns \<longleftrightarrow> len_is_not (length row) (length h)"
  by (auto simp: data_row_def bnd_Inl_iff Let_def optional_not_arity cleaned_not_arity
      level_loop_not_arity store_pit_not_arity split: option.splits if_splits
      simp del: bnd_simps)

lemma data_rowE:
  assumes "data_row flt st h row = Inr st'"
  obtains d off i currLat currLon currElev st1 l ob fc pit' qx tc where
    "\<not> len_is_not (length row) (length h)"
    "optional flt st row ''date'' (date st) = Inr d"
    "optional flt st row ''offset'' (offset st) = Inr off"
    "optional flt st row ''id'' NaN = Inr i"
    "optional flt st row ''lat'' NaN = Inr currLat"
    "optional flt st row ''lon'' NaN = Inr currLon"
    "optional flt st row ''elev'' NaN = Inr currElev"
    "st1 = resolve_location
             (st\<lparr>date := d, dates_set := dates_set st @ [d],
                 offset := off, offsets_set := offsets_set st @ [off]\<rparr>)
             i currLat currLon currElev"
    "map_of (locationInfo st1) i = Some l"
    "cleaned flt st row ''obs'' = Inr ob"
    "cleaned flt st row ''fcst'' = Inr fc"
    "store_pit flt st row (d, off, lat l, lon l, elev l) = Inr pit'"
    "level_loop flt st row (d, off, lat l, lon l, elev l) (get_quantile_fields h)
       (quantiles_set st, x_tbl st) = Inr qx"
    "level_loop flt st row (d, off, lat l, lon l, elev l) (get_threshold_fields h)
       (thresholds_set st, cdf_tbl st) = Inr tc"
    "st' = st1\<lparr>obs_tbl := AList.update (d, off, lat l, lon l, elev l) ob (obs_tbl st),
              fcst_tbl := AList.update (d, off, lat l, lon l, elev l) fc (fcst_tbl st),
              pit_tbl := pit',
              quantiles_set := fst qx, x_tbl := snd qx,
              thresholds_set := fst tc, cdf_tbl := snd tc\<rparr>"
proof -
  from assms have a: "\<not> len_is_not (length row) (length h)"
    by (auto simp: data_row_def split: if_splits)
  with assms obtain d off i currLat currLon currElev where
    o: "optional flt st row ''date'' (date st) = Inr d"
    "optional flt st row ''offset'' (offset st) = Inr off"
    "optional flt st row ''id'' NaN = Inr i"
    "optional flt st row ''lat'' NaN = Inr currLat"
    "optional flt st row ''lon'' NaN = Inr currLon"
    "optional flt st row ''elev'' NaN = Inr currElev"
    by (auto simp: data_row_def bnd_Inr_iff)
  define st1 where "st1 = resolve_location
             (st\<lparr>date := d, dates_set := dates_set st @ [d],
                 offset := off, offsets_set := offsets_set st @ [off]\<rparr>)
             i currLat currLon currElev"
  from assms a o obtain l where l: "map_of (locationInfo st1) i = Some l"
    by (auto simp: data_row_def Let_def st1_def split: option.splits)
  from assms a o l show thesis
    by (auto simp: data_row_def Let_def st1_def [symmetric] bnd_Inr_iff
        intro!: that [of d off i currLat currLon currElev st1 l] simp del: bnd_simps)
qed

text \<open>The three kinds of line.\<close>

lemma read_lineE:
  assumes "read_line flt st rowstr = Inr st'"
  obtains (comment) rest where "rowstr = CHR ''#'' # rest" "comment_line st rowstr rest = Inr st'"
  | (head) "\<not> starts_with (CHR ''#'') rowstr" "header st = None"
      "parse_header st (split rowstr) = Inr st'"
  | (data) h where "\<not> starts_with (CHR ''#'') rowstr" "header st = Some h"
      "data_row flt st h (split rowstr) = Inr st'"
  using assms by (auto simp: read_line_def split: list.splits if_splits option.splits)

lemma read_lines_append:
  "read_lines flt st (xs @ ys) = bnd (read_lines flt st xs) (\<lambda>st'. read_lines flt st' ys)"
  by (induction xs arbitrary: st) (auto simp: bnd_def split: sum.splits)

lemma read_lines_invariant:
  assumes "read_lines flt st rows = Inr st'" and "P st"
    and "\<And>s r s'. P s \<Longrightarrow> read_line flt s r = Inr s' \<Longrightarrow> P s'"
  shows "P st'"
  using assms(1,2)
proof (induction rows arbitrary: st)
  case Nil
  then show ?case by simp
next
  case (Cons r rows)
  from Cons.prems(1) obtain s where s: "read_line flt st r = Inr s" "read_lines flt s rows = Inr st'"
    by (auto simp: bnd_Inr_iff)
  from assms(3) [OF Cons.prems(2) s(1)] have "P s" .
  with s(2) show ?case by (rule Cons.IH)
qed

lemma read_line_data:
  "\<not> starts_with (CHR ''#'') rowstr \<Longrightarrow> rowstr \<noteq> [] \<Longrightarrow>
   read_line flt st rowstr =
     (case header st of None \<Rightarrow> parse_header st (split rowstr)
      | Some h \<Rightarrow> data_row flt st h (split rowstr))"
  by (cases rowstr) (auto simp: read_line_def)

subsection \<open>The number of columns\<close>

text \<open>A header of 257 columns and a data row of 257 fields.\<close>

definition wide_header :: string where
  "wide_header = join (''obs'' # ''fcst'' # replicate 255 ''c'')"

definition wide_row :: string where
  "wide_row = join (''1'' # ''2'' # replicate 255 ''3'')"

lemma split_wide:
  "split wide_header = ''obs'' # ''fcst'' # replicate 255 ''c''"
  "split wide_row = ''1'' # ''2'' # replicate 255 ''3''"
  unfolding wide_header_def wide_row_def
  by (rule split_join, simp add: token_def is_space_def list_all_iff)+

text \<open>
  C9. The number of fields of a data row is compared with the number of columns by
  \<^verbatim>\<open>is not\<close>. A data row raises the error about the number of columns exactly when
  the two numbers differ or exceed \<open>256\<close>: the row of 257 fields under the header of 257
  columns aborts the load.
\<close>

theorem wide_row_rejected:
  "length (split wide_row) = length (split wide_header)
   \<and> Text_init py_float first_seen first_seen [wide_header, wide_row]
       = Inl IncorrectNumberOfColumns
   \<and> (\<forall>flt st h row. data_row flt st h row = Inl IncorrectNumberOfColumns
        \<longleftrightarrow> (256 < length row \<or> length row \<noteq> length h))"
proof -
  let ?H = "''obs'' # ''fcst'' # replicate 255 ''c''"
  let ?st = "initial_state\<lparr>header := Some ?H, indices := header_indices ?H\<rparr>"
  have nc: "\<not> starts_with (CHR ''#'') wide_header" "wide_header \<noteq> []"
    "\<not> starts_with (CHR ''#'') wide_row" "wide_row \<noteq> []"
    by (simp_all add: wide_header_def wide_row_def)
  have 1: "read_line py_float initial_state wide_header = Inr ?st"
    by (simp add: read_line_data nc split_wide parse_header_def header_indices_None
        initial_state_def)
  have 2: "read_line py_float ?st wide_row = Inl IncorrectNumberOfColumns"
    by (simp add: read_line_data nc split_wide data_row_arity len_is_not_def)
  have "read_lines py_float initial_state [wide_header, wide_row] = Inl IncorrectNumberOfColumns"
    by (simp add: 1 2)
  then show ?thesis
    by (auto simp: Text_init_def split_wide data_row_arity len_is_not_def)
qed

subsection \<open>What a line leaves unchanged\<close>

lemma resolve_location_frame [simp]:
  "header (resolve_location st i a b c) = header st"
  "indices (resolve_location st i a b c) = indices st"
  "date (resolve_location st i a b c) = date st"
  "offset (resolve_location st i a b c) = offset st"
  "dates_set (resolve_location st i a b c) = dates_set st"
  "offsets_set (resolve_location st i a b c) = offsets_set st"
  "quantiles_set (resolve_location st i a b c) = quantiles_set st"
  "thresholds_set (resolve_location st i a b c) = thresholds_set st"
  "obs_tbl (resolve_location st i a b c) = obs_tbl st"
  "fcst_tbl (resolve_location st i a b c) = fcst_tbl st"
  "pit_tbl (resolve_location st i a b c) = pit_tbl st"
  "x_tbl (resolve_location st i a b c) = x_tbl st"
  "cdf_tbl (resolve_location st i a b c) = cdf_tbl st"
  "variable_name (resolve_location st i a b c) = variable_name st"
  "units_name (resolve_location st i a b c) = units_name st"
  by (simp_all add: resolve_location_def Let_def split: option.splits)

lemma comment_line_frame:
  assumes "comment_line st rowstr rest = Inr st'"
  shows "header st' = header st" "indices st' = indices st" "date st' = date st"
    "offset st' = offset st" "dates_set st' = dates_set st" "offsets_set st' = offsets_set st"
    "quantiles_set st' = quantiles_set st" "thresholds_set st' = thresholds_set st"
    "locations_set st' = locations_set st" "locationInfo st' = locationInfo st"
    "obs_tbl st' = obs_tbl st" "fcst_tbl st' = fcst_tbl st" "pit_tbl st' = pit_tbl st"
    "x_tbl st' = x_tbl st" "cdf_tbl st' = cdf_tbl st"
    "shownConflictingWarning st' = shownConflictingWarning st"
  using assms by (auto simp: comment_line_def split: list.splits if_splits)

lemma parse_header_frame:
  assumes "parse_header st row = Inr st'"
  shows "header st' = Some row" "indices st' = header_indices row" "date st' = date st"
    "offset st' = offset st" "dates_set st' = dates_set st" "offsets_set st' = offsets_set st"
    "quantiles_set st' = quantiles_set st" "thresholds_set st' = thresholds_set st"
    "locations_set st' = locations_set st" "locationInfo st' = locationInfo st"
    "obs_tbl st' = obs_tbl st" "fcst_tbl st' = fcst_tbl st" "pit_tbl st' = pit_tbl st"
    "x_tbl st' = x_tbl st" "cdf_tbl st' = cdf_tbl st"
    "shownConflictingWarning st' = shownConflictingWarning st" "warnings st' = warnings st"
  using assms by (auto simp: parse_header_def Let_def split: if_splits)

lemma level_loop_levels:
  "level_loop flt st row k flds acc = Inr acc' \<Longrightarrow>
   fst acc' = fst acc @ map (\<lambda>fld. Fin (the (flt (tl fld)))) flds"
proof (induction flds arbitrary: acc)
  case Nil
  then show ?case by simp
next
  case (Cons fld flds)
  obtain d off la lo el where k: "k = (d, off, la, lo, el)"
    by (cases k) auto
  from Cons.prems obtain level v where
    lv: "flt (tl fld) = Some level" "cleaned flt st row fld = Inr v"
    and rest: "level_loop flt st row k flds
      (fst acc @ [Fin level], AList.update (d, off, la, lo, el, Fin level) v (snd acc)) = Inr acc'"
    by (auto simp: k bnd_Inr_iff split: option.splits)
  from Cons.IH [OF rest] lv show ?case by simp
qed

lemma data_row_frame:
  assumes "data_row flt st h row = Inr st'"
  shows "header st' = header st" "indices st' = indices st"
    "variable_name st' = variable_name st" "units_name st' = units_name st"
  using assms by (auto elim!: data_rowE)

lemma data_row_sets:
  assumes "data_row flt st h row = Inr st'"
  shows "optional flt st row ''date'' (date st) = Inr (date st')"
    "optional flt st row ''offset'' (offset st) = Inr (offset st')"
    "dates_set st' = dates_set st @ [date st']"
    "offsets_set st' = offsets_set st @ [offset st']"
    "quantiles_set st' = quantiles_set st
       @ map (\<lambda>fld. Fin (the (flt (tl fld)))) (get_quantile_fields h)"
    "thresholds_set st' = thresholds_set st
       @ map (\<lambda>fld. Fin (the (flt (tl fld)))) (get_threshold_fields h)"
  using assms by (auto elim!: data_rowE dest!: level_loop_levels)

subsection \<open>The rows of a file and the values they carry\<close>

text \<open>
  The lines that are not comments: the first is the header, the others are the data
  rows. \<open>observed flt name rows\<close> lists, data row by data row, the value of the column
  \<open>name\<close>, or the default \<open>0\<close> when the header has no such column. \<open>levels flt flds\<close>
  are the numbers after the first letter of the quantile or threshold columns.
\<close>

definition noncomment :: "string list \<Rightarrow> string list" where
  "noncomment rows = filter (\<lambda>r. \<not> starts_with (CHR ''#'') r) rows"

definition header_row :: "string list \<Rightarrow> string list" where
  "header_row rows = (case noncomment rows of [] \<Rightarrow> [] | r # _ \<Rightarrow> split r)"

definition data_rows :: "string list \<Rightarrow> string list list" where
  "data_rows rows = map split (tl (noncomment rows))"

definition value_of :: "(string \<Rightarrow> real option) \<Rightarrow> string \<Rightarrow> fval" where
  "value_of flt v = (case clean flt v of Inl e \<Rightarrow> NaN | Inr x \<Rightarrow> x)"

definition observed :: "(string \<Rightarrow> real option) \<Rightarrow> string \<Rightarrow> string list \<Rightarrow> fval list" where
  "observed flt name rows =
     (case map_of (header_indices (header_row rows)) name of
        None \<Rightarrow> map (\<lambda>row. Fin 0) (data_rows rows)
      | Some i \<Rightarrow> map (\<lambda>row. value_of flt (row ! i)) (data_rows rows))"

definition levels :: "(string \<Rightarrow> real option) \<Rightarrow> string list \<Rightarrow> fval list" where
  "levels flt flds = map (\<lambda>fld. Fin (the (flt (tl fld)))) flds"

text \<open>What the state holds once the lines \<open>pre\<close> have been read.\<close>

definition have_read :: "(string \<Rightarrow> real option) \<Rightarrow> string list \<Rightarrow> text_state \<Rightarrow> bool" where
  "have_read flt pre st \<longleftrightarrow>
     header st = (if noncomment pre = [] then None else Some (header_row pre))
     \<and> indices st = header_indices (header_row pre)
     \<and> dates_set st = observed flt ''date'' pre
     \<and> offsets_set st = observed flt ''offset'' pre
     \<and> (map_of (indices st) ''date'' \<noteq> None \<or> date st = Fin 0)
     \<and> (map_of (indices st) ''offset'' \<noteq> None \<or> offset st = Fin 0)
     \<and> quantiles_set st
         = concat (map (\<lambda>row. levels flt (get_quantile_fields (header_row pre))) (data_rows pre))
     \<and> thresholds_set st
         = concat (map (\<lambda>row. levels flt (get_threshold_fields (header_row pre))) (data_rows pre))"

lemma have_read_initial: "have_read flt [] initial_state"
  by (simp add: have_read_def noncomment_def header_row_def data_rows_def observed_def
      initial_state_def header_indices_def)

lemma noncomment_snoc:
  "noncomment (pre @ [r]) = (if starts_with (CHR ''#'') r then noncomment pre else noncomment pre @ [r])"
  by (simp add: noncomment_def)

lemma optional_value:
  assumes "optional flt st row name dflt = Inr v" "indices st = header_indices h"
    "length row = length h"
  shows "v = (case map_of (header_indices h) name of
                None \<Rightarrow> dflt | Some i \<Rightarrow> value_of flt (row ! i))"
  using assms
  by (auto simp: optional_def cleaned_def column_def bnd_Inr_iff value_of_def
      split: option.splits if_splits)

lemma observed_no_rows: "data_rows rows = [] \<Longrightarrow> observed flt name rows = []"
  by (simp add: observed_def split: option.splits)

lemma have_read_step:
  assumes inv: "have_read flt pre st" and step: "read_line flt st r = Inr st'"
  shows "have_read flt (pre @ [r]) st'"
  using step
proof (cases rule: read_lineE)
  case (comment rest)
  from comment(1) have "noncomment (pre @ [r]) = noncomment pre"
    by (simp add: noncomment_snoc)
  then have same0: "header_row (pre @ [r]) = header_row pre" "data_rows (pre @ [r]) = data_rows pre"
    by (simp_all add: header_row_def data_rows_def)
  then have same: "header_row (pre @ [r]) = header_row pre" "data_rows (pre @ [r]) = data_rows pre"
    "observed flt name (pre @ [r]) = observed flt name pre" for name
    by (simp_all add: observed_def split: option.splits)
  with inv comment_line_frame [OF comment(2)] \<open>noncomment (pre @ [r]) = noncomment pre\<close>
  show ?thesis
    by (auto simp: have_read_def)
next
  case head
  from inv head(2) have e: "noncomment pre = []"
    by (auto simp: have_read_def split: if_splits)
  with head(1) have n: "noncomment (pre @ [r]) = [r]"
    by (simp add: noncomment_snoc)
  then have new: "header_row (pre @ [r]) = split r" "data_rows (pre @ [r]) = []"
    by (simp_all add: header_row_def data_rows_def)
  from e have old: "data_rows pre = []"
    by (simp add: data_rows_def)
  from inv have z: "date st = Fin 0" "offset st = Fin 0"
    by (auto simp: have_read_def e header_row_def header_indices_def)
  from inv parse_header_frame [OF head(3)] n new old z show ?thesis
    by (simp add: have_read_def observed_no_rows)
next
  case (data h)
  from inv data(2) have ne: "noncomment pre \<noteq> []" and h: "h = header_row pre"
    by (auto simp: have_read_def split: if_splits)
  from ne data(1) have n: "noncomment (pre @ [r]) = noncomment pre @ [r]"
    by (simp add: noncomment_snoc)
  with ne have new: "header_row (pre @ [r]) = h"
    "data_rows (pre @ [r]) = data_rows pre @ [split r]"
    by (simp_all add: header_row_def data_rows_def h split: list.splits)
  from inv have ind: "indices st = header_indices h"
    by (simp add: have_read_def h)
  from data(3) have len: "length (split r) = length h"
    by (auto elim!: data_rowE simp: len_is_not_def)
  note sets = data_row_sets [OF data(3)]
  from optional_value [OF sets(1) ind len] inv
  have d: "date st' = (case map_of (header_indices h) ''date'' of
                        None \<Rightarrow> Fin 0 | Some i \<Rightarrow> value_of flt (split r ! i))"
    by (auto simp: have_read_def ind split: option.splits)
  from optional_value [OF sets(2) ind len] inv
  have o: "offset st' = (case map_of (header_indices h) ''offset'' of
                        None \<Rightarrow> Fin 0 | Some i \<Rightarrow> value_of flt (split r ! i))"
    by (auto simp: have_read_def ind split: option.splits)
  have 1: "header st' = (if noncomment (pre @ [r]) = [] then None else Some (header_row (pre @ [r])))"
    using data_row_frame(1) [OF data(3)] data(2) n ne new by simp
  have 2: "indices st' = header_indices (header_row (pre @ [r]))"
    using data_row_frame(2) [OF data(3)] ind new by simp
  have 3: "dates_set st' = observed flt ''date'' (pre @ [r])"
    using sets(3) inv d by (simp add: have_read_def observed_def new h [symmetric] split: option.splits)
  have 4: "offsets_set st' = observed flt ''offset'' (pre @ [r])"
    using sets(4) inv o by (simp add: have_read_def observed_def new h [symmetric] split: option.splits)
  have 5: "map_of (indices st') ''date'' \<noteq> None \<or> date st' = Fin 0"
    using d 2 new by (auto split: option.splits)
  have 6: "map_of (indices st') ''offset'' \<noteq> None \<or> offset st' = Fin 0"
    using o 2 new by (auto split: option.splits)
  have 7: "quantiles_set st'
     = concat (map (\<lambda>row. levels flt (get_quantile_fields (header_row (pre @ [r]))))
         (data_rows (pre @ [r])))"
    using sets(5) inv by (simp add: have_read_def new h [symmetric] levels_def)
  have 8: "thresholds_set st'
     = concat (map (\<lambda>row. levels flt (get_threshold_fields (header_row (pre @ [r]))))
         (data_rows (pre @ [r])))"
    using sets(6) inv by (simp add: have_read_def new h [symmetric] levels_def)
  from 1 2 3 4 5 6 7 8 show ?thesis
    unfolding have_read_def by blast
qed

lemma have_read_lines:
  "read_lines flt st rows = Inr st' \<Longrightarrow> have_read flt pre st \<Longrightarrow> have_read flt (pre @ rows) st'"
proof (induction rows arbitrary: st pre)
  case Nil
  then show ?case by simp
next
  case (Cons r rows)
  from Cons.prems(1) obtain s where s: "read_line flt st r = Inr s" "read_lines flt s rows = Inr st'"
    by (auto simp: bnd_Inr_iff)
  from have_read_step [OF Cons.prems(2) s(1)] have "have_read flt (pre @ [r]) s" .
  from Cons.IH [OF s(2) this] show ?case by simp
qed

lemma have_read_all:
  "read_lines flt initial_state rows = Inr st \<Longrightarrow> have_read flt rows st"
  using have_read_lines [of flt initial_state rows st "[]"] by (simp add: have_read_initial)

subsection \<open>The enumerations\<close>

lemma enumerates_first_seen: "enumerates first_seen"
  by (simp add: enumerates_def first_seen_def)

lemma enumerates_ascending: "enumerates ascending"
  by (simp add: enumerates_def ascending_def first_seen_def)

lemma Text_init_Inr:
  "Text_init flt ordF ordL rows = Inr snap \<longleftrightarrow>
   (\<exists>st. read_lines flt initial_state rows = Inr st \<and> snap = assemble ordF ordL st)"
  by (auto simp: Text_init_def bnd_Inr_iff)

lemma assemble_fields [simp]:
  "dates (assemble ordF ordL st) = ordF (dates_set st)"
  "offsets (assemble ordF ordL st) = ordF (offsets_set st)"
  "quantiles (assemble ordF ordL st) = ordF (quantiles_set st)"
  "thresholds (assemble ordF ordL st) = ordF (thresholds_set st)"
  by (simp_all add: assemble_def Let_def)

section \<open>The quantiles of the decoders\<close>

text \<open>\<^verbatim>\<open>Comps._get_quantiles\<close>, over the names of the stored variables in the order in
  which the file's dictionary enumerates them.\<close>

definition dimensionNames :: "string list" where
  "dimensionNames = [''Date'', ''Offset'', ''Location'', ''Lat'', ''Lon'', ''Elev'']"

fun Comps_get_quantiles :: "(string \<Rightarrow> real option) \<Rightarrow> string list \<Rightarrow> error + real list" where
  "Comps_get_quantiles flt [] = Inr []"
| "Comps_get_quantiles flt (var # vars) =
     (if var \<in> set dimensionNames then Comps_get_quantiles flt vars
      else bnd (comps_to_verif_quantile flt var) (\<lambda>quantile.
           bnd (Comps_get_quantiles flt vars) (\<lambda>quantiles.
           Inr (case quantile of None \<Rightarrow> quantiles | Some q \<Rightarrow> q # quantiles))))"

lemma comps_to_verif_quantile_range:
  "comps_to_verif_quantile flt name = Inr (Some q) \<Longrightarrow> 0 \<le> q \<and> q \<le> 1"
  by (auto simp: comps_to_verif_quantile_def Let_def split: if_splits option.splits)

lemma Comps_get_quantiles_range:
  "Comps_get_quantiles flt vars = Inr qs \<Longrightarrow> list_all (\<lambda>q. 0 \<le> q \<and> q \<le> 1) qs"
proof (induction vars arbitrary: qs)
  case Nil
  then show ?case by simp
next
  case (Cons var vars)
  show ?case
  proof (cases "var \<in> set dimensionNames")
    case True
    with Cons show ?thesis by simp
  next
    case False
    with Cons.prems obtain quantile rest where
      q: "comps_to_verif_quantile flt var = Inr quantile"
      and r: "Comps_get_quantiles flt vars = Inr rest"
      and qs: "qs = (case quantile of None \<Rightarrow> rest | Some q \<Rightarrow> q # rest)"
      by (auto simp: bnd_Inr_iff)
    from Cons.IH [OF r] have "list_all (\<lambda>q. 0 \<le> q \<and> q \<le> 1) rest" .
    with q qs show ?thesis
      by (auto split: option.splits dest: comps_to_verif_quantile_range)
  qed
qed

lemma set_concat_const:
  "set (concat (map (\<lambda>x. ys) xs)) = (if xs = [] then {} else set ys)"
  by (induction xs) auto

lemma text_quantiles:
  assumes "enumerates ordF" "Text_init flt ordF ordL rows = Inr snap"
  shows "set (quantiles snap)
         = (if data_rows rows = [] then {}
            else set (levels flt (get_quantile_fields (header_row rows))))"
proof -
  from assms(2) obtain st where st: "read_lines flt initial_state rows = Inr st"
    and snap: "snap = assemble ordF ordL st"
    by (auto simp: Text_init_Inr)
  from have_read_all [OF st] have "quantiles_set st
     = concat (map (\<lambda>row. levels flt (get_quantile_fields (header_row rows))) (data_rows rows))"
    by (simp add: have_read_def)
  with assms(1) snap show ?thesis
    by (simp add: enumerates_def set_concat_const)
qed

text \<open>A text file with the quantile column \<^verbatim>\<open>q5\<close>, and the names of a legacy file.\<close>

definition q5_rows :: "string list" where
  "q5_rows = [''obs fcst q5'', ''1 2 3'']"

definition comps_vars :: "string list" where
  "comps_vars = [''Date'', ''q30'', ''obs'', ''q500'', ''q100'']"

text \<open>
  C5, as the claim states it, fails for the text decoder: it takes the quantile from
  the name of the column and does not look at its range. The column \<^verbatim>\<open>q5\<close> gives the
  quantile \<open>5\<close>.
\<close>

theorem text_quantile_outside_unit_interval:
  "map_sum id quantiles (Text_init py_float first_seen first_seen q5_rows) = Inr [Fin 5]"
  unfolding q5_rows_def by code_simp

text \<open>
  C5, amended. Every quantile that the legacy decoder finds among the names of the
  stored variables lies in the closed interval from \<open>0\<close> to \<open>1\<close>. The quantiles of the
  text decoder are the numbers that follow the \<^verbatim>\<open>q\<close> in the names of the quantile
  columns of the header (none when the file has no data row), whatever their size.
\<close>

theorem quantiles_of_the_decoders:
  "(Comps_get_quantiles flt vars = Inr qs \<longrightarrow> list_all (\<lambda>q. 0 \<le> q \<and> q \<le> 1) qs)
   \<and> (enumerates ordF \<and> Text_init flt ordF ordL rows = Inr snap \<longrightarrow>
        set (quantiles snap)
        = (if data_rows rows = [] then {}
           else set (levels flt (get_quantile_fields (header_row rows)))))"
  using Comps_get_quantiles_range [of flt vars qs] text_quantiles [of ordF flt ordL rows snap]
  by blast

lemma py_float_q:
  "py_float ''30'' = Some 30" "py_float ''500'' = Some 500" "py_float ''100'' = Some 100"
  "py_float ''obs'' = None" "py_float ''5'' = Some 5"
  by (simp_all add: py_float_def unsigned_float_def digit_of_def)

lemma Comps_get_quantiles_example:
  "Comps_get_quantiles py_float comps_vars = Inr [3 / 10, 1]"
  by (simp add: comps_vars_def dimensionNames_def comps_to_verif_quantile_def is_number_def
      py_float_q)

theorem quantiles_of_the_decoders_witness:
  "Comps_get_quantiles py_float comps_vars = Inr [3 / 10, 1]
   \<and> list_all (\<lambda>q. 0 \<le> q \<and> q \<le> 1) [3 / 10, 1 :: real]
   \<and> enumerates first_seen
   \<and> (\<exists>snap. Text_init py_float first_seen first_seen q5_rows = Inr snap
        \<and> set (quantiles snap) = {Fin 5})"
proof -
  have "case Text_init py_float first_seen first_seen q5_rows of Inl e \<Rightarrow> False | Inr s \<Rightarrow> True"
    unfolding q5_rows_def by code_simp
  then obtain snap where s: "Text_init py_float first_seen first_seen q5_rows = Inr snap"
    by (auto split: sum.splits)
  have d: "data_rows q5_rows = [[''1'', ''2'', ''3'']]" "header_row q5_rows = [''obs'', ''fcst'', ''q5'']"
    by (simp_all add: data_rows_def header_row_def noncomment_def q5_rows_def split_def is_space_def)
  from quantiles_of_the_decoders [of py_float comps_vars "[3 / 10, 1]" first_seen first_seen
      q5_rows snap] s
  show ?thesis
    by (auto simp: Comps_get_quantiles_example enumerates_first_seen d levels_def
        get_quantile_fields_def py_float_q)
qed

section \<open>The coordinate sequences of the text decoder\<close>

lemma text_coordinates:
  assumes "enumerates ordF" "Text_init flt ordF ordL rows = Inr snap"
  shows "set (dates snap) = set (observed flt ''date'' rows)" "distinct (dates snap)"
    "set (offsets snap) = set (observed flt ''offset'' rows)" "distinct (offsets snap)"
proof -
  from assms(2) obtain st where st: "read_lines flt initial_state rows = Inr st"
    and snap: "snap = assemble ordF ordL st"
    by (auto simp: Text_init_Inr)
  from have_read_all [OF st] have "dates_set st = observed flt ''date'' rows"
    "offsets_set st = observed flt ''offset'' rows"
    by (simp_all add: have_read_def)
  with assms(1) snap show "set (dates snap) = set (observed flt ''date'' rows)"
    "distinct (dates snap)" "set (offsets snap) = set (observed flt ''offset'' rows)"
    "distinct (offsets snap)"
    by (simp_all add: enumerates_def)
qed

text \<open>Two data rows, the offset \<open>1\<close> before the offset \<open>0\<close>.\<close>

definition unsorted_rows :: "string list" where
  "unsorted_rows = [''offset obs fcst'', ''1 7 8'', ''0 7 9'']"

text \<open>
  C7, as the claim states it, fails: the offsets are collected in a set, and the order
  of the sequence is the order in which \<^verbatim>\<open>list\<close> enumerates that set. The offsets \<open>1\<close>
  and \<open>0\<close>, seen in this order, sit in the slots \<open>1\<close> and \<open>0\<close> of the set's table and come
  out as \<open>0, 1\<close>.
\<close>

theorem offsets_not_in_first_seen_order:
  "map_sum id offsets (Text_init py_float ascending first_seen unsorted_rows)
     = Inr [Fin 0, Fin 1]
   \<and> first_seen (observed py_float ''offset'' unsorted_rows) = [Fin 1, Fin 0]"
  unfolding unsorted_rows_def by code_simp

text \<open>
  C7, amended. The dates and the offsets of the snapshot are exactly the values that
  the data rows carry in these columns (the default \<open>0\<close> for a column that the header
  does not have), each of them once, in the order in which the set enumerates them.
\<close>

theorem text_coordinates_are_the_observed_values:
  assumes "enumerates ordF" and "Text_init flt ordF ordL rows = Inr snap"
  shows "set (dates snap) = set (observed flt ''date'' rows) \<and> distinct (dates snap)
         \<and> set (offsets snap) = set (observed flt ''offset'' rows) \<and> distinct (offsets snap)"
  using text_coordinates [OF assms] by simp

theorem text_coordinates_are_the_observed_values_witness:
  "enumerates ascending
   \<and> (\<exists>snap. Text_init py_float ascending first_seen unsorted_rows = Inr snap
        \<and> set (dates snap) = {Fin 0} \<and> distinct (dates snap)
        \<and> set (offsets snap) = {Fin 0, Fin 1} \<and> distinct (offsets snap))"
proof -
  have "case Text_init py_float ascending first_seen unsorted_rows of
          Inl e \<Rightarrow> False | Inr s \<Rightarrow> True"
    unfolding unsorted_rows_def by code_simp
  then obtain snap where s: "Text_init py_float ascending first_seen unsorted_rows = Inr snap"
    by (auto split: sum.splits)
  have o: "observed py_float ''date'' unsorted_rows = [Fin 0, Fin 0]"
    "observed py_float ''offset'' unsorted_rows = [Fin 1, Fin 0]"
    unfolding unsorted_rows_def by code_simp+
  from text_coordinates_are_the_observed_values [OF enumerates_ascending s] s o
  show ?thesis
    using enumerates_ascending by auto
qed

section \<open>Rows with the same key\<close>

lemma level_loop_stores:
  assumes "level_loop flt st row (d, off, la, lo, el) flds acc = Inr acc'"
    and "list_all (\<lambda>g. flt (tl g) = Some r \<longrightarrow> cleaned flt st row g = Inr v) flds"
    and "map_of (snd acc) (d, off, la, lo, el, Fin r) = Some v
         \<or> list_ex (\<lambda>g. flt (tl g) = Some r) flds"
  shows "map_of (snd acc') (d, off, la, lo, el, Fin r) = Some v"
  using assms
proof (induction flds arbitrary: acc)
  case Nil
  then show ?case by simp
next
  case (Cons g flds)
  from Cons.prems(1) obtain level w where
    lv: "flt (tl g) = Some level" "cleaned flt st row g = Inr w"
    and rest: "level_loop flt st row (d, off, la, lo, el) flds
      (fst acc @ [Fin level], AList.update (d, off, la, lo, el, Fin level) w (snd acc)) = Inr acc'"
    by (auto simp: bnd_Inr_iff split: option.splits)
  show ?case
  proof (rule Cons.IH [OF rest])
    from Cons.prems(2) show "list_all (\<lambda>g. flt (tl g) = Some r \<longrightarrow> cleaned flt st row g = Inr v) flds"
      by simp
    from Cons.prems(2,3) lv
    show "map_of (snd (fst acc @ [Fin level],
                  AList.update (d, off, la, lo, el, Fin level) w (snd acc)))
            (d, off, la, lo, el, Fin r) = Some v
          \<or> list_ex (\<lambda>g. flt (tl g) = Some r) flds"
      by (auto simp: update_conv')
  qed
qed

text \<open>The state with the five sparse tables emptied: no key is in a table.\<close>

definition forget_tables :: "text_state \<Rightarrow> text_state" where
  "forget_tables st = st\<lparr>obs_tbl := [], fcst_tbl := [], pit_tbl := [], x_tbl := [], cdf_tbl := []\<rparr>"

lemma forget_tables_simps [simp]:
  "indices (forget_tables st) = indices st" "date (forget_tables st) = date st"
  "offset (forget_tables st) = offset st" "warnings (forget_tables st) = warnings st"
  "locationInfo (forget_tables st) = locationInfo st"
  "shownConflictingWarning (forget_tables st) = shownConflictingWarning st"
  by (simp_all add: forget_tables_def)

lemma cleaned_indices: "indices st = indices st2 \<Longrightarrow> cleaned flt st row name = cleaned flt st2 row name"
  by (simp add: cleaned_def column_def)

lemma optional_indices:
  "indices st = indices st2 \<Longrightarrow> optional flt st row name v = optional flt st2 row name v"
  by (simp add: optional_def cleaned_indices [of st st2])

lemma level_loop_outcome:
  "indices st = indices st2 \<Longrightarrow>
   map_sum id fst (level_loop flt st row k flds (ls, t)) =
   map_sum id fst (level_loop flt st2 row k flds (ls, t2))"
proof (induction flds arbitrary: ls t t2)
  case Nil
  show ?case by simp
next
  case (Cons g flds)
  obtain d off la lo el where k: "k = (d, off, la, lo, el)"
    by (cases k) auto
  show ?case
  proof (cases "flt (tl g)")
    case None
    then show ?thesis by simp
  next
    case (Some level)
    show ?thesis
    proof (cases "cleaned flt st2 row g")
      case (Inl e)
      with Some Cons.prems show ?thesis
        by (simp add: cleaned_indices [of st st2])
    next
      case (Inr w)
      with Some Cons.prems Cons.IH [OF Cons.prems] show ?thesis
        by (simp add: cleaned_indices [of st st2] k)
    qed
  qed
qed

lemma warnings_resolve_location:
  "warnings (resolve_location st i a b c) =
     (case known_location st i of
        Some l \<Rightarrow> if \<not> shownConflictingWarning st \<and> conflicting l a b c
                  then warnings st @ [ConflictingInfo a b c (lat l) (lon l) (elev l)]
                  else warnings st
      | None \<Rightarrow> warnings st)"
  by (simp add: resolve_location_def Let_def split: option.splits)


lemma forget_tables_reads [simp]:
  "optional flt (forget_tables st) row name v = optional flt st row name v"
  "cleaned flt (forget_tables st) row name = cleaned flt st row name"
  by (simp_all add: optional_indices [of "forget_tables st" st]
      cleaned_indices [of "forget_tables st" st])

lemma resolve_location_forget:
  "resolve_location ((forget_tables st)\<lparr>date := d, dates_set := ds, offset := off, offsets_set := os\<rparr>)
     i a b c
   = forget_tables (resolve_location (st\<lparr>date := d, dates_set := ds, offset := off,
       offsets_set := os\<rparr>) i a b c)"
  by (simp add: resolve_location_def forget_tables_def known_location_def Let_def
      split: option.splits)

lemma outcome_bnd:
  assumes "rel_sum (=) R m m2"
    and "\<And>x y. R x y \<Longrightarrow> map_sum id f (k x) = map_sum id f (k2 y)"
  shows "map_sum id f (bnd m k) = map_sum id f (bnd m2 k2)"
  using assms by (cases m; cases m2) auto

lemma level_loop_rel:
  "rel_sum (=) (\<lambda>x y. fst x = fst y) (level_loop flt (forget_tables st) row k flds (ls, t))
     (level_loop flt st row k flds (ls, t2))"
  using level_loop_outcome [of "forget_tables st" st flt row k flds ls t t2]
  by (cases "level_loop flt (forget_tables st) row k flds (ls, t)";
      cases "level_loop flt st row k flds (ls, t2)") auto

lemma forget_tables_sets [simp]:
  "dates_set (forget_tables st) = dates_set st" "offsets_set (forget_tables st) = offsets_set st"
  "quantiles_set (forget_tables st) = quantiles_set st"
  "thresholds_set (forget_tables st) = thresholds_set st"
  by (simp_all add: forget_tables_def)

lemma data_row_outcome:
  "map_sum id warnings (data_row flt (forget_tables st) h row)
   = map_sum id warnings (data_row flt st h row)"
proof (cases "len_is_not (length row) (length h)")
  case True
  then show ?thesis by (simp add: data_row_def)
next
  case False
  have same: "rel_sum (=) (=) m m" for m :: "error + fval"
    by (cases m) auto
  have pit: "rel_sum (=) (\<lambda>x y. True) (store_pit flt (forget_tables st) row k) (store_pit flt st row k)"
    for k
    by (cases "cleaned flt st row ''pit''") (auto simp: store_pit_def)
  show ?thesis
    unfolding data_row_def Let_def
    apply (simp add: False resolve_location_forget del: bnd_simps)
    apply (rule outcome_bnd [where R = "(=)"], rule same, clarify)+
    apply (simp split: option.split del: bnd_simps)
    apply clarify
    apply (rule outcome_bnd [where R = "(=)"], rule same, clarify)+
    apply (rule outcome_bnd [where R = "\<lambda>x y. True"], rule pit)
    apply (rule outcome_bnd [OF level_loop_rel])
    apply (rule outcome_bnd [OF level_loop_rel])
    apply (simp add: forget_tables_def warnings_resolve_location known_location_def
        split: option.split)
    done
qed


lemma dense3_cell:
  "a < length ds \<Longrightarrow> b < length offs \<Longrightarrow> c < length ls \<Longrightarrow>
   cells3 (dense3 tbl ds offs ls) ! a ! b ! c
   = cell tbl (ds ! a, offs ! b, lat (ls ! c), lon (ls ! c), elev (ls ! c))"
  by (simp add: dense3_def)

lemma dense4_cell:
  "a < length ds \<Longrightarrow> b < length offs \<Longrightarrow> c < length ls \<Longrightarrow> e < length vs \<Longrightarrow>
   cells4 (dense4 tbl ds offs ls vs) ! a ! b ! c ! e
   = cell tbl (ds ! a, offs ! b, lat (ls ! c), lon (ls ! c), elev (ls ! c), vs ! e)"
  by (simp add: dense4_def)

lemma assemble_arrays [simp]:
  "obs (assemble ordF ordL st)
   = dense3 (obs_tbl st) (ordF (dates_set st)) (ordF (offsets_set st)) (ordL (locations_set st))"
  "deterministic (assemble ordF ordL st)
   = dense3 (fcst_tbl st) (ordF (dates_set st)) (ordF (offsets_set st)) (ordL (locations_set st))"
  "pit (assemble ordF ordL st)
   = (if pit_tbl st = [] then None
      else Some (dense3 (pit_tbl st) (ordF (dates_set st)) (ordF (offsets_set st))
                   (ordL (locations_set st))))"
  "threshold_scores (assemble ordF ordL st)
   = dense4 (cdf_tbl st) (ordF (dates_set st)) (ordF (offsets_set st)) (ordL (locations_set st))
       (ordF (thresholds_set st))"
  "quantile_scores (assemble ordF ordL st)
   = dense4 (x_tbl st) (ordF (dates_set st)) (ordF (offsets_set st)) (ordL (locations_set st))
       (ordF (quantiles_set st))"
  by (simp_all add: assemble_def Let_def)

lemma data_row_stores:
  assumes row: "data_row flt st h row = Inr st'"
    and i: "optional flt st row ''id'' NaN = Inr i"
    and l: "map_of (locationInfo st') i = Some l"
  shows "\<exists>ob fc. cleaned flt st row ''obs'' = Inr ob \<and> cleaned flt st row ''fcst'' = Inr fc
           \<and> map_of (obs_tbl st') (date st', offset st', lat l, lon l, elev l) = Some ob
           \<and> map_of (fcst_tbl st') (date st', offset st', lat l, lon l, elev l) = Some fc"
    and "map_of (indices st) ''pit'' = None
         \<or> (\<exists>p. cleaned flt st row ''pit'' = Inr p
               \<and> map_of (pit_tbl st') (date st', offset st', lat l, lon l, elev l) = Some p)"
    and "list_ex (\<lambda>g. flt (tl g) = Some r) (get_quantile_fields h) \<Longrightarrow>
         list_all (\<lambda>g. flt (tl g) = Some r \<longrightarrow> cleaned flt st row g = Inr v) (get_quantile_fields h) \<Longrightarrow>
         map_of (x_tbl st') (date st', offset st', lat l, lon l, elev l, Fin r) = Some v"
    and "list_ex (\<lambda>g. flt (tl g) = Some r) (get_threshold_fields h) \<Longrightarrow>
         list_all (\<lambda>g. flt (tl g) = Some r \<longrightarrow> cleaned flt st row g = Inr v) (get_threshold_fields h) \<Longrightarrow>
         map_of (cdf_tbl st') (date st', offset st', lat l, lon l, elev l, Fin r) = Some v"
proof -
  from row obtain d off i' currLat currLon currElev st1 l' ob fc pit' qx tc where
    f: "optional flt st row ''id'' NaN = Inr i'"
    "st1 = resolve_location
             (st\<lparr>date := d, dates_set := dates_set st @ [d],
                 offset := off, offsets_set := offsets_set st @ [off]\<rparr>)
             i' currLat currLon currElev"
    "map_of (locationInfo st1) i' = Some l'"
    "cleaned flt st row ''obs'' = Inr ob"
    "cleaned flt st row ''fcst'' = Inr fc"
    "store_pit flt st row (d, off, lat l', lon l', elev l') = Inr pit'"
    "level_loop flt st row (d, off, lat l', lon l', elev l') (get_quantile_fields h)
       (quantiles_set st, x_tbl st) = Inr qx"
    "level_loop flt st row (d, off, lat l', lon l', elev l') (get_threshold_fields h)
       (thresholds_set st, cdf_tbl st) = Inr tc"
    and st': "st' = st1\<lparr>obs_tbl := AList.update (d, off, lat l', lon l', elev l') ob (obs_tbl st),
              fcst_tbl := AList.update (d, off, lat l', lon l', elev l') fc (fcst_tbl st),
              pit_tbl := pit',
              quantiles_set := fst qx, x_tbl := snd qx,
              thresholds_set := fst tc, cdf_tbl := snd tc\<rparr>"
    by (rule data_rowE)
  from f(1) i have "i' = i" by simp
  with f(2,3) l st' have ll: "l' = l" by simp
  from f(2) st' have ds: "date st' = d" "offset st' = off"
    by simp_all
  show "\<exists>ob fc. cleaned flt st row ''obs'' = Inr ob \<and> cleaned flt st row ''fcst'' = Inr fc
           \<and> map_of (obs_tbl st') (date st', offset st', lat l, lon l, elev l) = Some ob
           \<and> map_of (fcst_tbl st') (date st', offset st', lat l, lon l, elev l) = Some fc"
    using f(4,5) st' ds ll by (simp add: update_conv')
  show "map_of (indices st) ''pit'' = None
         \<or> (\<exists>p. cleaned flt st row ''pit'' = Inr p
               \<and> map_of (pit_tbl st') (date st', offset st', lat l, lon l, elev l) = Some p)"
    using f(6) st' ds ll by (auto simp: store_pit_def bnd_Inr_iff update_conv' split: if_splits)
  show "map_of (x_tbl st') (date st', offset st', lat l, lon l, elev l, Fin r) = Some v"
    if "list_ex (\<lambda>g. flt (tl g) = Some r) (get_quantile_fields h)"
      "list_all (\<lambda>g. flt (tl g) = Some r \<longrightarrow> cleaned flt st row g = Inr v) (get_quantile_fields h)"
    using level_loop_stores [OF f(7) that(2)] that(1) st' ds ll by simp
  show "map_of (cdf_tbl st') (date st', offset st', lat l, lon l, elev l, Fin r) = Some v"
    if "list_ex (\<lambda>g. flt (tl g) = Some r) (get_threshold_fields h)"
      "list_all (\<lambda>g. flt (tl g) = Some r \<longrightarrow> cleaned flt st row g = Inr v) (get_threshold_fields h)"
    using level_loop_stores [OF f(8) that(2)] that(1) st' ds ll by simp
qed

text \<open>The key under which a data row stores its values, read off the state it leaves:
  its date and offset and the coordinates of the location \<open>l\<close> it resolved to.\<close>

definition row_key :: "text_state \<Rightarrow> location \<Rightarrow> key" where
  "row_key st' l = (date st', offset st', lat l, lon l, elev l)"

definition with_level :: "key \<Rightarrow> fval \<Rightarrow> lkey" where
  "with_level k v = (case k of (d, off, la, lo, el) \<Rightarrow> (d, off, la, lo, el, v))"

section \<open>Conflicting information about a location\<close>

fun is_conflict_warning :: "warning \<Rightarrow> bool" where
  "is_conflict_warning (ConflictingInfo a b c d e f) = True"
| "is_conflict_warning (IgnoringLine s) = False"

definition conflict_warnings :: "text_state \<Rightarrow> nat" where
  "conflict_warnings st = length (filter is_conflict_warning (warnings st))"

text \<open>
  A data row conflicts in the state \<open>st\<close> when its identifier is that of a stored
  location and its own latitude, longitude or elevation is a number that differs from
  the stored one by more than the tolerance. \<open>conflicting_rows\<close> counts the data rows
  of a file that conflict in the state in which they are read.
\<close>

definition row_conflicts :: "(string \<Rightarrow> real option) \<Rightarrow> text_state \<Rightarrow> string list \<Rightarrow> bool" where
  "row_conflicts flt st row =
     (case (optional flt st row ''id'' NaN, optional flt st row ''lat'' NaN,
            optional flt st row ''lon'' NaN, optional flt st row ''elev'' NaN) of
        (Inr i, Inr currLat, Inr currLon, Inr currElev) \<Rightarrow>
          (case known_location st i of
             Some l \<Rightarrow> conflicting l currLat currLon currElev
           | None \<Rightarrow> False)
      | _ \<Rightarrow> False)"

fun conflicting_rows :: "(string \<Rightarrow> real option) \<Rightarrow> text_state \<Rightarrow> string list \<Rightarrow> nat" where
  "conflicting_rows flt st [] = 0"
| "conflicting_rows flt st (r # rs) =
     (if \<not> starts_with (CHR ''#'') r \<and> header st \<noteq> None \<and> row_conflicts flt st (split r)
      then 1 else 0)
     + (case read_line flt st r of Inl e \<Rightarrow> 0 | Inr st' \<Rightarrow> conflicting_rows flt st' rs)"

definition warned_once :: "text_state \<Rightarrow> bool" where
  "warned_once st \<longleftrightarrow> conflict_warnings st = (if shownConflictingWarning st then 1 else 0)"

lemma data_row_warnings:
  assumes "data_row flt st h row = Inr st'"
  obtains i a b c where
    "optional flt st row ''id'' NaN = Inr i" "optional flt st row ''lat'' NaN = Inr a"
    "optional flt st row ''lon'' NaN = Inr b" "optional flt st row ''elev'' NaN = Inr c"
    "warnings st' =
       (case known_location st i of
          Some l \<Rightarrow> if \<not> shownConflictingWarning st \<and> conflicting l a b c
                    then warnings st @ [ConflictingInfo a b c (lat l) (lon l) (elev l)]
                    else warnings st
        | None \<Rightarrow> warnings st)"
    "shownConflictingWarning st' =
       (case known_location st i of
          Some l \<Rightarrow> shownConflictingWarning st \<or> conflicting l a b c
        | None \<Rightarrow> shownConflictingWarning st)"
    "locationInfo st' =
       (case known_location st i of
          Some l \<Rightarrow> locationInfo st
        | None \<Rightarrow> AList.update i
            \<lparr>loc_id = i, lat = (if isnan a then Fin 0 else a),
             lon = (if isnan b then Fin 0 else b),
             elev = (if isnan c then Fin 0 else c)\<rparr> (locationInfo st))"
    "locations_set st' =
       (case known_location st i of
          Some l \<Rightarrow> locations_set st
        | None \<Rightarrow> locations_set st @
            [\<lparr>loc_id = i, lat = (if isnan a then Fin 0 else a),
              lon = (if isnan b then Fin 0 else b),
              elev = (if isnan c then Fin 0 else c)\<rparr>])"
  using assms
  by (elim data_rowE)
    (rule that, assumption+,
      auto simp: resolve_location_def known_location_def Let_def split: option.splits)

lemma warned_once_step:
  assumes "warned_once st" "read_line flt st r = Inr st'"
  shows "warned_once st'"
  using assms(2)
proof (cases rule: read_lineE)
  case (comment rest)
  with assms(1) show ?thesis
    by (auto simp: warned_once_def conflict_warnings_def comment_line_def
        split: list.splits if_splits)
next
  case head
  with assms(1) parse_header_frame [OF head(3)] show ?thesis
    by (simp add: warned_once_def conflict_warnings_def)
next
  case (data h)
  from data(3) assms(1) show ?thesis
    by (elim data_row_warnings)
      (auto simp: warned_once_def conflict_warnings_def split: option.splits)
qed

lemma shown_step:
  assumes "read_line flt st r = Inr st'"
  shows "shownConflictingWarning st \<Longrightarrow> shownConflictingWarning st'"
    and "\<not> starts_with (CHR ''#'') r \<Longrightarrow> header st \<noteq> None \<Longrightarrow> row_conflicts flt st (split r)
         \<Longrightarrow> shownConflictingWarning st'"
  using assms
  by (cases rule: read_lineE;
      auto simp: comment_line_frame parse_header_frame row_conflicts_def
        elim!: data_row_warnings split: option.splits)+

lemma conflicts_shown:
  "read_lines flt st rows = Inr st' \<Longrightarrow>
   shownConflictingWarning st \<or> 0 < conflicting_rows flt st rows \<Longrightarrow>
   shownConflictingWarning st'"
proof (induction rows arbitrary: st)
  case Nil
  then show ?case by simp
next
  case (Cons r rows)
  from Cons.prems(1) obtain s where s: "read_line flt st r = Inr s" "read_lines flt s rows = Inr st'"
    by (auto simp: bnd_Inr_iff)
  from Cons.prems(2) s(1) shown_step [OF s(1)]
  have "shownConflictingWarning s \<or> 0 < conflicting_rows flt s rows"
    by (auto split: if_splits)
  from Cons.IH [OF s(2) this] show ?case .
qed

lemma known_location_step:
  assumes "read_line flt st r = Inr st'" "known_location st i = Some l"
  shows "known_location st' i = Some l"
  using assms(1)
proof (cases rule: read_lineE)
  case (comment rest)
  with assms(2) comment_line_frame(10) [OF comment(2)] show ?thesis
    by (auto simp: known_location_def split: if_splits)
next
  case head
  with assms(2) parse_header_frame(10) [OF head(3)] show ?thesis
    by (auto simp: known_location_def split: if_splits)
next
  case (data h)
  from data(3) assms(2) show ?thesis
    by (elim data_row_warnings)
      (auto simp: known_location_def update_conv' split: option.splits if_splits)
qed

lemma known_location_lines:
  "read_lines flt st rows = Inr st' \<Longrightarrow> known_location st i = Some l \<Longrightarrow>
   known_location st' i = Some l"
  by (rule read_lines_invariant [where P = "\<lambda>s. known_location s i = Some l"])
    (auto intro: known_location_step)

lemma known_row_keeps_identity:
  assumes "data_row flt st h row = Inr st1"
    and "optional flt st row ''id'' NaN = Inr i"
    and "known_location st i = Some l"
  shows "known_location st1 i = Some l" "locations_set st1 = locations_set st"
    "\<exists>ob. cleaned flt st row ''obs'' = Inr ob \<and> map_of (obs_tbl st1) (row_key st1 l) = Some ob"
proof -
  from assms show k: "known_location st1 i = Some l" and "locations_set st1 = locations_set st"
    by (auto elim!: data_row_warnings simp: known_location_def)
  then have "map_of (locationInfo st1) i = Some l"
    by (auto simp: known_location_def split: if_splits)
  from data_row_stores(1) [OF assms(1,2) this]
  show "\<exists>ob. cleaned flt st row ''obs'' = Inr ob \<and> map_of (obs_tbl st1) (row_key st1 l) = Some ob"
    by (auto simp: row_key_def)
qed

text \<open>A file in which two rows contradict the first row about the latitude of
  location \<open>1\<close>.\<close>

definition conflict_rows :: "string list" where
  "conflict_rows = [''id lat obs fcst'', ''1 1 0 0'', ''1 2 0 0'', ''1 3 0 0'']"

text \<open>
  C8. When a file that loads has two or more conflicting data rows, its log holds
  exactly one warning about conflicting information. Whenever a data row \<open>r\<close> names a
  location that is already stored, whether it conflicts or not, the stored location
  stays as it is, then and to the end of the file, no location is added, and the row's
  observation is stored under the latitude, longitude and elevation of the stored
  location.
\<close>

theorem one_conflict_warning:
  assumes "read_lines flt initial_state rows = Inr st'"
    and "2 \<le> conflicting_rows flt initial_state rows"
  shows "conflict_warnings st' = 1
     \<and> (\<forall>pre r post st h i l st1.
           rows = pre @ r # post \<and> read_lines flt initial_state pre = Inr st
           \<and> header st = Some h \<and> data_row flt st h (split r) = Inr st1
           \<and> optional flt st (split r) ''id'' NaN = Inr i \<and> known_location st i = Some l
           \<and> \<not> starts_with (CHR ''#'') r
         \<longrightarrow> known_location st1 i = Some l \<and> locations_set st1 = locations_set st
             \<and> known_location st' i = Some l
             \<and> (\<exists>ob. cleaned flt st (split r) ''obs'' = Inr ob
                   \<and> map_of (obs_tbl st1) (row_key st1 l) = Some ob))"
proof -
  have "warned_once initial_state"
    by (simp add: warned_once_def conflict_warnings_def initial_state_def)
  with assms(1) have "warned_once st'"
    by (rule read_lines_invariant) (rule warned_once_step)
  moreover from assms have "shownConflictingWarning st'"
    by (intro conflicts_shown [OF assms(1)]) simp
  ultimately have one: "conflict_warnings st' = 1"
    by (simp add: warned_once_def)
  have kept: "known_location st1 i = Some l \<and> locations_set st1 = locations_set st
             \<and> known_location st' i = Some l
             \<and> (\<exists>ob. cleaned flt st (split r) ''obs'' = Inr ob
                   \<and> map_of (obs_tbl st1) (row_key st1 l) = Some ob)"
    if "rows = pre @ r # post" "read_lines flt initial_state pre = Inr st"
      "header st = Some h" "data_row flt st h (split r) = Inr st1"
      "optional flt st (split r) ''id'' NaN = Inr i" "known_location st i = Some l"
      "\<not> starts_with (CHR ''#'') r"
    for pre r post st h i l st1
  proof -
    from assms(1) that(1,2) have "read_lines flt st (r # post) = Inr st'"
      by (simp add: read_lines_append)
    from known_location_lines [OF this that(6)] have "known_location st' i = Some l" .
    with known_row_keeps_identity [OF that(4,5,6)] show ?thesis by simp
  qed
  from one kept show ?thesis by blast
qed

lemmas text_eval = read_line_def comment_line_def parse_header_def header_indices_def
  data_row_def optional_def cleaned_def column_def clean_def store_pit_def
  resolve_location_def known_location_def conflicting_def get_quantile_fields_def
  get_threshold_fields_def len_is_not_def initial_state_def Let_def row_conflicts_def

lemma py_float_digits:
  "py_float ''0'' = Some 0" "py_float ''1'' = Some 1" "py_float ''2'' = Some 2"
  "py_float ''3'' = Some 3"
  by (simp_all add: py_float_def unsigned_float_def digit_of_def)

lemma split_conflict_rows:
  "split ''id lat obs fcst'' = [''id'', ''lat'', ''obs'', ''fcst'']"
  "split ''1 1 0 0'' = [''1'', ''1'', ''0'', ''0'']"
  "split ''1 2 0 0'' = [''1'', ''2'', ''0'', ''0'']"
  "split ''1 3 0 0'' = [''1'', ''3'', ''0'', ''0'']"
  by (simp_all add: split_def is_space_def)

theorem one_conflict_warning_witness:
  "\<exists>st'. read_lines py_float initial_state conflict_rows = Inr st'
     \<and> conflicting_rows py_float initial_state conflict_rows = 2
     \<and> conflict_warnings st' = 1
     \<and> known_location st' (Fin 1) = Some \<lparr>loc_id = Fin 1, lat = Fin 1, lon = Fin 0, elev = Fin 0\<rparr>"
proof -
  have "case read_lines py_float initial_state conflict_rows of
          Inl e \<Rightarrow> False
        | Inr st' \<Rightarrow> conflicting_rows py_float initial_state conflict_rows = 2
            \<and> known_location st' (Fin 1)
              = Some \<lparr>loc_id = Fin 1, lat = Fin 1, lon = Fin 0, elev = Fin 0\<rparr>"
    unfolding conflict_rows_def by (simp add: text_eval py_float_digits split_conflict_rows)
  then obtain st' where f: "read_lines py_float initial_state conflict_rows = Inr st'"
    "conflicting_rows py_float initial_state conflict_rows = 2"
    "known_location st' (Fin 1) = Some \<lparr>loc_id = Fin 1, lat = Fin 1, lon = Fin 0, elev = Fin 0\<rparr>"
    by (auto split: sum.splits)
  from f(2) have "2 \<le> conflicting_rows py_float initial_state conflict_rows"
    by simp
  from one_conflict_warning [OF f(1) this] have "conflict_warnings st' = 1"
    by (rule conjunct1)
  with f show ?thesis by blast
qed

section \<open>The dense arrays\<close>

text \<open>An array has the shape \<open>(n, m, k)\<close> when its shape attribute says so and its cells
  are \<open>n\<close> lists of \<open>m\<close> lists of \<open>k\<close> values.\<close>

definition has_shape3 :: "array3 \<Rightarrow> nat \<Rightarrow> nat \<Rightarrow> nat \<Rightarrow> bool" where
  "has_shape3 a n m k \<longleftrightarrow>
     shape3 a = (n, m, k) \<and> length (cells3 a) = n
     \<and> list_all (\<lambda>p. length p = m \<and> list_all (\<lambda>r. length r = k) p) (cells3 a)"

definition has_shape4 :: "array4 \<Rightarrow> nat \<Rightarrow> nat \<Rightarrow> nat \<Rightarrow> nat \<Rightarrow> bool" where
  "has_shape4 a n m k t \<longleftrightarrow>
     shape4 a = (n, m, k, t) \<and> length (cells4 a) = n
     \<and> list_all (\<lambda>p. length p = m
          \<and> list_all (\<lambda>r. length r = k \<and> list_all (\<lambda>v. length v = t) r) p) (cells4 a)"

text \<open>The key that the cell \<open>(a, b, c)\<close> of a snapshot is filled from.\<close>

definition cell_key :: "snapshot \<Rightarrow> nat \<Rightarrow> nat \<Rightarrow> nat \<Rightarrow> key" where
  "cell_key snap a b c =
     (dates snap ! a, offsets snap ! b, lat (locations snap ! c), lon (locations snap ! c),
      elev (locations snap ! c))"

lemma dense3_shape: "has_shape3 (dense3 tbl ds offs ls) (length ds) (length offs) (length ls)"
  by (simp add: has_shape3_def dense3_def list_all_iff)

lemma dense4_shape:
  "has_shape4 (dense4 tbl ds offs ls vs) (length ds) (length offs) (length ls) (length vs)"
  by (simp add: has_shape4_def dense4_def list_all_iff)

lemma assign_ids_length [simp]: "length (assign_ids c ls) = length ls"
  by (induction ls arbitrary: c) simp_all

lemma assign_ids_coordinates:
  "j < length ls \<Longrightarrow>
   lat (assign_ids c ls ! j) = lat (ls ! j) \<and> lon (assign_ids c ls ! j) = lon (ls ! j)
   \<and> elev (assign_ids c ls ! j) = elev (ls ! j)"
proof (induction ls arbitrary: c j)
  case Nil
  then show ?case by simp
next
  case (Cons l ls)
  then show ?case by (cases j) simp_all
qed

lemma assemble_locations [simp]:
  "locations (assemble ordF ordL st)
   = assign_ids (first_counter (max_location_id NaN (ordL (locations_set st))))
       (ordL (locations_set st))"
  by (simp add: assemble_def Let_def)

lemma enumerates_length: "enumerates ord \<Longrightarrow> length (ord xs) = card (set xs)"
  by (metis distinct_card enumerates_def)

text \<open>A file with two locations at the same (default) coordinates.\<close>

definition shared_rows :: "string list" where
  "shared_rows = [''date id obs fcst'', ''1 10 5 5'', ''2 20 6 6'']"

text \<open>
  C4, as the claim states it, fails in its last part. The cells are filled by the date,
  the offset and the latitude, longitude and elevation of the location, not by the
  location itself. The file below has no row for location \<open>20\<close> at date \<open>1\<close> nor for
  location \<open>10\<close> at date \<open>2\<close>, yet these cells hold the value of the other location,
  which has the same coordinates.
\<close>

theorem cell_of_absent_combination_filled:
  "map_sum id (\<lambda>s. (dates s, map loc_id (locations s), shape3 (obs s), cells3 (obs s)))
     (Text_init py_float first_seen first_seen shared_rows)
   = Inr ([Fin 1, Fin 2], [Fin 10, Fin 20], (2, 1, 2), [[[Fin 5, Fin 5]], [[Fin 6, Fin 6]]])
   \<and> data_rows shared_rows = [[''1'', ''10'', ''5'', ''5''], [''2'', ''20'', ''6'', ''6'']]"
  unfolding shared_rows_def by code_simp

text \<open>
  C4, amended. For a text file that loads, with \<open>N\<close> distinct dates and \<open>M\<close> distinct
  offsets in its data rows, \<open>K\<close> locations, \<open>T\<close> thresholds and \<open>Q\<close> quantiles in the
  snapshot: the arrays of observations and of forecasts have the shape \<open>(N, M, K)\<close>,
  the threshold scores \<open>(N, M, K, T)\<close> and the quantile scores \<open>(N, M, K, Q)\<close>; and a cell
  holds not-a-number whenever the sparse table has no entry for the cell's date, offset
  and the latitude, longitude and elevation of its location (and its level).
\<close>

theorem dense_arrays:
  assumes "enumerates ordF" and "read_lines flt initial_state rows = Inr st"
    and "snap = assemble ordF ordL st"
  shows "Text_init flt ordF ordL rows = Inr snap
     \<and> length (dates snap) = card (set (observed flt ''date'' rows))
     \<and> length (offsets snap) = card (set (observed flt ''offset'' rows))
     \<and> has_shape3 (obs snap) (length (dates snap)) (length (offsets snap))
          (length (locations snap))
     \<and> has_shape3 (deterministic snap) (length (dates snap)) (length (offsets snap))
          (length (locations snap))
     \<and> has_shape4 (threshold_scores snap) (length (dates snap)) (length (offsets snap))
          (length (locations snap)) (length (thresholds snap))
     \<and> has_shape4 (quantile_scores snap) (length (dates snap)) (length (offsets snap))
          (length (locations snap)) (length (quantiles snap))
     \<and> (\<forall>a b c. a < length (dates snap) \<and> b < length (offsets snap)
            \<and> c < length (locations snap)
          \<longrightarrow> (map_of (obs_tbl st) (cell_key snap a b c) = None
                \<longrightarrow> cells3 (obs snap) ! a ! b ! c = NaN)
              \<and> (map_of (fcst_tbl st) (cell_key snap a b c) = None
                \<longrightarrow> cells3 (deterministic snap) ! a ! b ! c = NaN)
              \<and> (\<forall>e. e < length (thresholds snap)
                     \<and> map_of (cdf_tbl st) (with_level (cell_key snap a b c) (thresholds snap ! e))
                       = None
                   \<longrightarrow> cells4 (threshold_scores snap) ! a ! b ! c ! e = NaN)
              \<and> (\<forall>e. e < length (quantiles snap)
                     \<and> map_of (x_tbl st) (with_level (cell_key snap a b c) (quantiles snap ! e))
                       = None
                   \<longrightarrow> cells4 (quantile_scores snap) ! a ! b ! c ! e = NaN))"
proof -
  from have_read_all [OF assms(2)] have o: "dates_set st = observed flt ''date'' rows"
    "offsets_set st = observed flt ''offset'' rows"
    by (simp_all add: have_read_def)
  have 1: "Text_init flt ordF ordL rows = Inr snap"
    using assms(2,3) by (simp add: Text_init_def)
  have 2: "length (dates snap) = card (set (observed flt ''date'' rows))"
    "length (offsets snap) = card (set (observed flt ''offset'' rows))"
    using assms(1,3) o by (simp_all add: enumerates_length)
  have 3: "has_shape3 (obs snap) (length (dates snap)) (length (offsets snap))
          (length (locations snap))"
    "has_shape3 (deterministic snap) (length (dates snap)) (length (offsets snap))
          (length (locations snap))"
    "has_shape4 (threshold_scores snap) (length (dates snap)) (length (offsets snap))
          (length (locations snap)) (length (thresholds snap))"
    "has_shape4 (quantile_scores snap) (length (dates snap)) (length (offsets snap))
          (length (locations snap)) (length (quantiles snap))"
    using assms(3) dense3_shape dense4_shape by simp_all
  have 4: "(map_of (obs_tbl st) (cell_key snap a b c) = None
                \<longrightarrow> cells3 (obs snap) ! a ! b ! c = NaN)
              \<and> (map_of (fcst_tbl st) (cell_key snap a b c) = None
                \<longrightarrow> cells3 (deterministic snap) ! a ! b ! c = NaN)
              \<and> (\<forall>e. e < length (thresholds snap)
                     \<and> map_of (cdf_tbl st) (with_level (cell_key snap a b c) (thresholds snap ! e))
                       = None
                   \<longrightarrow> cells4 (threshold_scores snap) ! a ! b ! c ! e = NaN)
              \<and> (\<forall>e. e < length (quantiles snap)
                     \<and> map_of (x_tbl st) (with_level (cell_key snap a b c) (quantiles snap ! e))
                       = None
                   \<longrightarrow> cells4 (quantile_scores snap) ! a ! b ! c ! e = NaN)"
    if "a < length (dates snap)" "b < length (offsets snap)" "c < length (locations snap)"
    for a b c
    using that assms(3)
      assign_ids_coordinates [of c "ordL (locations_set st)"
        "first_counter (max_location_id NaN (ordL (locations_set st)))"]
    by (simp add: dense3_cell dense4_cell cell_key_def with_level_def cell_def)
  from 1 2 3 4 show ?thesis by blast
qed

theorem dense_arrays_witness:
  "enumerates first_seen
   \<and> (\<exists>st snap. read_lines py_float initial_state shared_rows = Inr st
         \<and> snap = assemble first_seen first_seen st
         \<and> has_shape3 (obs snap) 2 1 2
         \<and> card (set (observed py_float ''date'' shared_rows)) = 2
         \<and> card (set (observed py_float ''offset'' shared_rows)) = 1
         \<and> length (locations snap) = 2)"
proof -
  have "case read_lines py_float initial_state shared_rows of
          Inl e \<Rightarrow> False
        | Inr st \<Rightarrow> length (locations (assemble first_seen first_seen st)) = 2
            \<and> length (dates (assemble first_seen first_seen st)) = 2
            \<and> length (offsets (assemble first_seen first_seen st)) = 1"
    unfolding shared_rows_def by code_simp
  then obtain st where st: "read_lines py_float initial_state shared_rows = Inr st"
    "length (locations (assemble first_seen first_seen st)) = 2"
    "length (dates (assemble first_seen first_seen st)) = 2"
    "length (offsets (assemble first_seen first_seen st)) = 1"
    by (auto split: sum.splits)
  note d = dense_arrays [OF enumerates_first_seen st(1) refl, of first_seen]
  from d st(2,3,4) have "has_shape3 (obs (assemble first_seen first_seen st)) 2 1 2"
    "card (set (observed py_float ''date'' shared_rows)) = 2"
    "card (set (observed py_float ''offset'' shared_rows)) = 1"
    by metis+
  with st enumerates_first_seen show ?thesis by blast
qed

section \<open>Identifiers for the locations that have none\<close>

text \<open>The identifiers in use in a list of locations, and the number of locations
  without identifier before the position \<open>j\<close>.\<close>

definition assigned_ids :: "location list \<Rightarrow> real set" where
  "assigned_ids ls = {r. Fin r \<in> loc_id ` set ls}"

definition unassigned_before :: "location list \<Rightarrow> nat \<Rightarrow> nat" where
  "unassigned_before ls j = length (filter (\<lambda>l. isnan (loc_id l)) (take j ls))"

definition next_id :: "location list \<Rightarrow> real" where
  "next_id ls = (if assigned_ids ls = {} then 0 else Max (assigned_ids ls) + 1)"

text \<open>An enumeration of a set in the reverse order of the first occurrences.\<close>

definition last_seen :: "'a list \<Rightarrow> 'a list" where
  "last_seen xs = rev (first_seen xs)"

lemma assigned_ids_Cons:
  "assigned_ids (l # ls) = (case loc_id l of NaN \<Rightarrow> {} | Fin r \<Rightarrow> {r}) \<union> assigned_ids ls"
  by (auto simp: assigned_ids_def split: fval.splits)

lemma finite_assigned_ids [simp]: "finite (assigned_ids ls)"
proof (induction ls)
  case Nil
  show ?case by (simp add: assigned_ids_def)
next
  case (Cons l ls)
  then show ?case by (simp add: assigned_ids_Cons split: fval.splits)
qed

lemma max_location_id_eq:
  "max_location_id m ls =
     (let S = (case m of NaN \<Rightarrow> {} | Fin r \<Rightarrow> {r}) \<union> assigned_ids ls
      in if S = {} then NaN else Fin (Max S))"
proof (induction ls arbitrary: m)
  case Nil
  show ?case by (cases m) (simp_all add: assigned_ids_def)
next
  case (Cons l ls)
  show ?case
  proof (cases m)
    case NaN
    then show ?thesis
      by (simp add: Cons.IH assigned_ids_Cons Let_def)
  next
    case (Fin r)
    show ?thesis
    proof (cases "loc_id l")
      case NaN
      with Fin show ?thesis
        by (simp add: Cons.IH assigned_ids_Cons Let_def)
    next
      case (Fin q)
      have "Max (insert q (insert r (assigned_ids ls))) = Max (insert (max q r) (assigned_ids ls))"
        by (cases "assigned_ids ls = {}") (simp_all add: max.assoc)
      with Fin \<open>m = Fin r\<close> show ?thesis
        by (auto simp: Cons.IH assigned_ids_Cons Let_def max_def insert_commute)
    qed
  qed
qed

lemma first_counter_next_id: "first_counter (max_location_id NaN ls) = next_id ls"
  by (simp add: max_location_id_eq next_id_def first_counter_def Let_def)

lemma assign_ids_nth:
  "j < length ls \<Longrightarrow>
   assign_ids c ls ! j =
     (if isnan (loc_id (ls ! j))
      then (ls ! j)\<lparr>loc_id := Fin (c + real (unassigned_before ls j))\<rparr>
      else ls ! j)"
proof (induction ls arbitrary: c j)
  case Nil
  then show ?case by simp
next
  case (Cons l ls)
  show ?case
  proof (cases j)
    case 0
    then show ?thesis by (simp add: unassigned_before_def)
  next
    case (Suc k)
    with Cons.prems have "k < length ls" by simp
    from Cons.IH [OF this] Suc show ?thesis
      by (simp add: unassigned_before_def add.assoc)
  qed
qed

text \<open>Two locations without identifier, at the latitudes \<open>1\<close> and \<open>2\<close>.\<close>

definition unnamed_rows :: "string list" where
  "unnamed_rows = [''lat obs fcst'', ''1 2 3'', ''2 2 4'']"

text \<open>
  C6, as the claim states it, fails in its last part. The locations are collected in a
  set, and the new identifiers are handed out in the order in which \<^verbatim>\<open>list\<close> enumerates
  that set, which keeps no trace of the order of insertion. When the set enumerates
  the location seen second before the location seen first, the second gets \<open>0\<close> and the
  first gets \<open>1\<close>.
\<close>

theorem ids_not_in_first_seen_order:
  "map_sum id (\<lambda>s. map (\<lambda>l. (lat l, loc_id l)) (locations s))
     (Text_init py_float first_seen last_seen unnamed_rows)
   = Inr [(Fin 2, Fin 0), (Fin 1, Fin 1)]
   \<and> observed py_float ''lat'' unnamed_rows = [Fin 1, Fin 2]"
  unfolding unnamed_rows_def by code_simp

text \<open>
  C6, amended. Let \<open>ls\<close> be the locations as \<^verbatim>\<open>list\<close> enumerates the set of locations.
  The snapshot has these locations in this order. A location that has an identifier
  keeps it. The locations without identifier get the numbers \<open>c, c + 1, c + 2, \<dots>\<close> in
  the order of \<open>ls\<close>, where \<open>c\<close> is one more than the largest identifier in \<open>ls\<close>, or
  \<open>0\<close> when no location of \<open>ls\<close> has one. Latitude, longitude and elevation stay.
\<close>

theorem deferred_ids:
  assumes "read_lines flt initial_state rows = Inr st" and "ls = ordL (locations_set st)"
  shows "\<exists>snap. Text_init flt ordF ordL rows = Inr snap
           \<and> length (locations snap) = length ls
           \<and> (\<forall>j. j < length ls \<longrightarrow>
                 locations snap ! j =
                   (if isnan (loc_id (ls ! j))
                    then (ls ! j)\<lparr>loc_id := Fin (next_id ls + real (unassigned_before ls j))\<rparr>
                    else ls ! j))"
  using assms by (simp add: Text_init_def assign_ids_nth first_counter_next_id)

text \<open>Three locations, the first and the third with the sentinel for an identifier.\<close>

definition sentinel_rows :: "string list" where
  "sentinel_rows = [''id lat obs fcst'', ''-999 1 0 0'', ''5 2 0 0'', ''-999 3 0 0'']"

definition mixed_locations :: "location list" where
  "mixed_locations =
     [\<lparr>loc_id = NaN, lat = Fin 1, lon = Fin 0, elev = Fin 0\<rparr>,
      \<lparr>loc_id = Fin 5, lat = Fin 2, lon = Fin 0, elev = Fin 0\<rparr>,
      \<lparr>loc_id = NaN, lat = Fin 3, lon = Fin 0, elev = Fin 0\<rparr>]"

theorem deferred_ids_witness:
  "\<exists>st snap. read_lines py_float initial_state sentinel_rows = Inr st
     \<and> mixed_locations = first_seen (locations_set st)
     \<and> Text_init py_float first_seen first_seen sentinel_rows = Inr snap
     \<and> map loc_id (locations snap) = [Fin 6, Fin 5, Fin 7]"
proof -
  have "case read_lines py_float initial_state sentinel_rows of
          Inl e \<Rightarrow> False
        | Inr st \<Rightarrow> mixed_locations = first_seen (locations_set st)"
    unfolding sentinel_rows_def mixed_locations_def by code_simp
  then obtain st where st: "read_lines py_float initial_state sentinel_rows = Inr st"
    "mixed_locations = first_seen (locations_set st)"
    by (auto split: sum.splits)
  have a: "assigned_ids mixed_locations = {5}"
    by (auto simp: assigned_ids_def mixed_locations_def)
  have n: "next_id mixed_locations = 6"
    by (simp add: next_id_def a)
  have u: "unassigned_before mixed_locations 0 = 0" "unassigned_before mixed_locations 2 = 1"
    by (simp_all add: unassigned_before_def mixed_locations_def numeral_2_eq_2)
  have len: "length mixed_locations = 3"
    by (simp add: mixed_locations_def)
  from deferred_ids [where ordL = first_seen and ordF = first_seen and ls = mixed_locations,
      OF st] obtain snap where
    s: "Text_init py_float first_seen first_seen sentinel_rows = Inr snap"
    and l: "length (locations snap) = 3"
    and j: "\<And>j. j < 3 \<Longrightarrow> locations snap ! j =
           (if isnan (loc_id (mixed_locations ! j))
            then (mixed_locations ! j)
                   \<lparr>loc_id := Fin (6 + real (unassigned_before mixed_locations j))\<rparr>
            else mixed_locations ! j)"
    unfolding n len by blast
  from j [of 0] j [of 1] j [of 2] u
  have "loc_id (locations snap ! 0) = Fin 6" "loc_id (locations snap ! 1) = Fin 5"
    "loc_id (locations snap ! 2) = Fin 7"
    by (simp_all add: mixed_locations_def)
  with l have "map loc_id (locations snap) = [Fin 6, Fin 5, Fin 7]"
    by (simp add: list_eq_iff_nth_eq less_Suc_eq numeral_3_eq_3 numeral_2_eq_2)
  with st s show ?thesis by auto
qed

section \<open>The last row of a key\<close>

text \<open>
  The key under which a data row is stored, from the state \<open>st\<close> in which it is read
  and the state \<open>st'\<close> it leaves; and the keys under which the data rows of a list of
  lines are stored, in the order of the lines.
\<close>

definition key_of_row ::
  "(string \<Rightarrow> real option) \<Rightarrow> text_state \<Rightarrow> text_state \<Rightarrow> string list \<Rightarrow> key option" where
  "key_of_row flt st st' row =
     (case optional flt st row ''id'' NaN of
        Inl e \<Rightarrow> None
      | Inr i \<Rightarrow> map_option (row_key st') (map_of (locationInfo st') i))"

fun stored_keys :: "(string \<Rightarrow> real option) \<Rightarrow> text_state \<Rightarrow> string list \<Rightarrow> key list" where
  "stored_keys flt st [] = []"
| "stored_keys flt st (r # rs) =
     (case read_line flt st r of
        Inl e \<Rightarrow> []
      | Inr st' \<Rightarrow>
          (if starts_with (CHR ''#'') r \<or> header st = None then []
           else (case key_of_row flt st st' (split r) of None \<Rightarrow> [] | Some k \<Rightarrow> [k]))
          @ stored_keys flt st' rs)"

text \<open>The cell \<open>(a, b, c)\<close> of a snapshot exists and is the cell of the key \<open>k\<close>.\<close>

definition at_key :: "snapshot \<Rightarrow> key \<Rightarrow> nat \<Rightarrow> nat \<Rightarrow> nat \<Rightarrow> bool" where
  "at_key snap k a b c \<longleftrightarrow>
     a < length (dates snap) \<and> b < length (offsets snap) \<and> c < length (locations snap)
     \<and> cell_key snap a b c = k"

text \<open>
  What is assumed of \<^verbatim>\<open>list(s)\<close> for the set of locations: for every location that was
  added, the enumeration has a location with the same coordinates. It holds when
  \<^verbatim>\<open>Location\<close> objects that the set takes for equal have equal coordinates.
\<close>

definition keeps_coordinates :: "(location list \<Rightarrow> location list) \<Rightarrow> bool" where
  "keeps_coordinates ord \<longleftrightarrow>
     (\<forall>xs x. x \<in> set xs \<longrightarrow>
        (\<exists>y. y \<in> set (ord xs) \<and> lat y = lat x \<and> lon y = lon x \<and> elev y = elev x))"

text \<open>
  The value that a row gives for the level \<open>lv\<close> of a family of columns: some column
  of the family names the level, and \<open>v\<close> is what the row has, cleaned, in every column
  that names it.
\<close>

definition reads_level ::
  "(string \<Rightarrow> real option) \<Rightarrow> text_state \<Rightarrow> string list \<Rightarrow> string list \<Rightarrow> real \<Rightarrow> fval \<Rightarrow> bool" where
  "reads_level flt st row flds lv v \<longleftrightarrow>
     list_ex (\<lambda>g. flt (tl g) = Some lv) flds
     \<and> list_all (\<lambda>g. flt (tl g) = Some lv \<longrightarrow> cleaned flt st row g = Inr v) flds"

text \<open>
  A file with three data rows: the first two have the same date, offset and location,
  the third has another date.
\<close>

definition dup_header :: string where
  "dup_header = ''date id obs fcst pit q0.5 p10''"

definition dup_pre :: "string list" where
  "dup_pre = [dup_header, ''1 7 1 2 0.1 3 0.4'']"

definition dup_row :: string where
  "dup_row = ''1 7 5 6 0.7 8 0.9''"

definition dup_post :: "string list" where
  "dup_post = [''2 7 9 9 0.5 9 0.5'']"

definition dup_key :: key where
  "dup_key = (Fin 1, Fin 0, Fin 0, Fin 0, Fin 0)"

lemma keeps_coordinates_first_seen: "keeps_coordinates first_seen"
  by (auto simp: keeps_coordinates_def first_seen_def)

subsection \<open>Rows with other keys leave the entries of a key alone\<close>

lemma level_loop_frame:
  "level_loop flt st row k' flds acc = Inr acc' \<Longrightarrow> k' \<noteq> k \<Longrightarrow>
   map_of (snd acc') (with_level k v) = map_of (snd acc) (with_level k v)"
proof (induction flds arbitrary: acc)
  case Nil
  then show ?case by simp
next
  case (Cons g flds)
  obtain d off la lo el where k': "k' = (d, off, la, lo, el)"
    by (cases k') auto
  from Cons.prems(1) obtain level w where
    rest: "level_loop flt st row k' flds
      (fst acc @ [Fin level], AList.update (d, off, la, lo, el, Fin level) w (snd acc)) = Inr acc'"
    by (auto simp: k' bnd_Inr_iff split: option.splits)
  from Cons.IH [OF rest Cons.prems(2)] Cons.prems(2) show ?case
    by (cases k) (auto simp: k' with_level_def update_conv')
qed

lemma data_row_tables:
  assumes "data_row flt st h row = Inr st'"
  shows "\<exists>k'. key_of_row flt st st' row = Some k' \<and> (\<forall>k. k \<noteq> k' \<longrightarrow>
       map_of (obs_tbl st') k = map_of (obs_tbl st) k
       \<and> map_of (fcst_tbl st') k = map_of (fcst_tbl st) k
       \<and> map_of (pit_tbl st') k = map_of (pit_tbl st) k
       \<and> (\<forall>v. map_of (x_tbl st') (with_level k v) = map_of (x_tbl st) (with_level k v))
       \<and> (\<forall>v. map_of (cdf_tbl st') (with_level k v) = map_of (cdf_tbl st) (with_level k v)))"
proof -
  from assms obtain d off i currLat currLon currElev st1 l ob fc pit' qx tc where
    f: "optional flt st row ''id'' NaN = Inr i"
    "st1 = resolve_location
             (st\<lparr>date := d, dates_set := dates_set st @ [d],
                 offset := off, offsets_set := offsets_set st @ [off]\<rparr>)
             i currLat currLon currElev"
    "map_of (locationInfo st1) i = Some l"
    "store_pit flt st row (d, off, lat l, lon l, elev l) = Inr pit'"
    "level_loop flt st row (d, off, lat l, lon l, elev l) (get_quantile_fields h)
       (quantiles_set st, x_tbl st) = Inr qx"
    "level_loop flt st row (d, off, lat l, lon l, elev l) (get_threshold_fields h)
       (thresholds_set st, cdf_tbl st) = Inr tc"
    and st': "st' = st1\<lparr>obs_tbl := AList.update (d, off, lat l, lon l, elev l) ob (obs_tbl st),
              fcst_tbl := AList.update (d, off, lat l, lon l, elev l) fc (fcst_tbl st),
              pit_tbl := pit',
              quantiles_set := fst qx, x_tbl := snd qx,
              thresholds_set := fst tc, cdf_tbl := snd tc\<rparr>"
    by (rule data_rowE)
  let ?k = "(d, off, lat l, lon l, elev l)"
  from f(1,2,3) st' have key: "key_of_row flt st st' row = Some ?k"
    by (simp add: key_of_row_def row_key_def)
  have frame: "map_of (obs_tbl st') k = map_of (obs_tbl st) k
       \<and> map_of (fcst_tbl st') k = map_of (fcst_tbl st) k
       \<and> map_of (pit_tbl st') k = map_of (pit_tbl st) k
       \<and> (\<forall>v. map_of (x_tbl st') (with_level k v) = map_of (x_tbl st) (with_level k v))
       \<and> (\<forall>v. map_of (cdf_tbl st') (with_level k v) = map_of (cdf_tbl st) (with_level k v))"
    if "k \<noteq> ?k" for k
  proof -
    from that have ne: "?k \<noteq> k" by simp
    from f(4) that have "map_of pit' k = map_of (pit_tbl st) k"
      by (auto simp: store_pit_def bnd_Inr_iff update_conv' split: if_splits)
    with level_loop_frame [OF f(5) ne] level_loop_frame [OF f(6) ne] that st'
    show ?thesis by (simp add: update_conv')
  qed
  from key frame show ?thesis by blast
qed

lemma tables_frame:
  "read_lines flt st rows = Inr st' \<Longrightarrow> k \<notin> set (stored_keys flt st rows) \<Longrightarrow>
   map_of (obs_tbl st') k = map_of (obs_tbl st) k
   \<and> map_of (fcst_tbl st') k = map_of (fcst_tbl st) k
   \<and> map_of (pit_tbl st') k = map_of (pit_tbl st) k
   \<and> (\<forall>v. map_of (x_tbl st') (with_level k v) = map_of (x_tbl st) (with_level k v))
   \<and> (\<forall>v. map_of (cdf_tbl st') (with_level k v) = map_of (cdf_tbl st) (with_level k v))"
proof (induction rows arbitrary: st)
  case Nil
  then show ?case by simp
next
  case (Cons r rows)
  from Cons.prems(1) obtain s where s: "read_line flt st r = Inr s" "read_lines flt s rows = Inr st'"
    by (auto simp: bnd_Inr_iff)
  from Cons.prems(2) s(1) have rest: "k \<notin> set (stored_keys flt s rows)"
    by simp
  note ih = Cons.IH [OF s(2) rest]
  from s(1) show ?case
  proof (cases rule: read_lineE)
    case (comment rest)
    from comment_line_frame [OF comment(2)] ih show ?thesis by simp
  next
    case head
    from parse_header_frame [OF head(3)] ih show ?thesis by simp
  next
    case (data h)
    from data(3) obtain k' where k': "key_of_row flt st s (split r) = Some k'"
      and frame: "\<forall>k. k \<noteq> k' \<longrightarrow>
       map_of (obs_tbl s) k = map_of (obs_tbl st) k
       \<and> map_of (fcst_tbl s) k = map_of (fcst_tbl st) k
       \<and> map_of (pit_tbl s) k = map_of (pit_tbl st) k
       \<and> (\<forall>v. map_of (x_tbl s) (with_level k v) = map_of (x_tbl st) (with_level k v))
       \<and> (\<forall>v. map_of (cdf_tbl s) (with_level k v) = map_of (cdf_tbl st) (with_level k v))"
      using data_row_tables [of flt st h "split r" s] by blast
    from Cons.prems(2) s(1) data(1,2) k' have "k \<noteq> k'"
      by auto
    with frame have "map_of (obs_tbl s) k = map_of (obs_tbl st) k
       \<and> map_of (fcst_tbl s) k = map_of (fcst_tbl st) k
       \<and> map_of (pit_tbl s) k = map_of (pit_tbl st) k
       \<and> (\<forall>v. map_of (x_tbl s) (with_level k v) = map_of (x_tbl st) (with_level k v))
       \<and> (\<forall>v. map_of (cdf_tbl s) (with_level k v) = map_of (cdf_tbl st) (with_level k v))"
      by blast
    with ih show ?thesis by simp
  qed
qed

subsection \<open>What has been read stays in the sets\<close>

lemma read_line_grows:
  assumes "read_line flt s r = Inr s'"
  shows "set (dates_set s) \<subseteq> set (dates_set s') \<and> set (offsets_set s) \<subseteq> set (offsets_set s')
    \<and> set (locations_set s) \<subseteq> set (locations_set s')
    \<and> set (quantiles_set s) \<subseteq> set (quantiles_set s')
    \<and> set (thresholds_set s) \<subseteq> set (thresholds_set s')"
  using assms
proof (cases rule: read_lineE)
  case (comment rest)
  from comment_line_frame [OF comment(2)] show ?thesis by simp
next
  case head
  from parse_header_frame [OF head(3)] show ?thesis by simp
next
  case (data h)
  from data(3) have "set (locations_set s) \<subseteq> set (locations_set s')"
    by (rule data_row_warnings) (auto split: option.splits)
  with data_row_sets(3-6) [OF data(3)] show ?thesis by auto
qed

lemma read_lines_grows:
  "read_lines flt s rows = Inr s' \<Longrightarrow>
   set (dates_set s) \<subseteq> set (dates_set s') \<and> set (offsets_set s) \<subseteq> set (offsets_set s')
    \<and> set (locations_set s) \<subseteq> set (locations_set s')
    \<and> set (quantiles_set s) \<subseteq> set (quantiles_set s')
    \<and> set (thresholds_set s) \<subseteq> set (thresholds_set s')"
proof (induction rows arbitrary: s)
  case Nil
  then show ?case by simp
next
  case (Cons r rows)
  from Cons.prems obtain t where t: "read_line flt s r = Inr t" "read_lines flt t rows = Inr s'"
    by (auto simp: bnd_Inr_iff)
  from read_line_grows [OF t(1)] Cons.IH [OF t(2)] show ?case
    by (elim conjE, intro conjI) (erule (1) subset_trans)+
qed

text \<open>Every location of \<^verbatim>\<open>locationInfo\<close> has been added to the set of locations.\<close>

lemma registered_step:
  assumes "read_line flt s r = Inr s'"
    and "\<forall>i l. map_of (locationInfo s) i = Some l \<longrightarrow> l \<in> set (locations_set s)"
  shows "\<forall>i l. map_of (locationInfo s') i = Some l \<longrightarrow> l \<in> set (locations_set s')"
  using assms(1)
proof (cases rule: read_lineE)
  case (comment rest)
  from comment_line_frame(9,10) [OF comment(2)] assms(2) show ?thesis by simp
next
  case head
  from parse_header_frame(9,10) [OF head(3)] assms(2) show ?thesis by simp
next
  case (data h)
  from data(3) assms(2) show ?thesis
    by (elim data_row_warnings) (auto simp: update_conv' split: option.splits if_splits)
qed

lemma registered:
  assumes "read_lines flt initial_state rows = Inr st" "map_of (locationInfo st) i = Some l"
  shows "l \<in> set (locations_set st)"
proof -
  have "\<forall>i l. map_of (locationInfo st) i = Some l \<longrightarrow> l \<in> set (locations_set st)"
    by (rule read_lines_invariant [OF assms(1)])
      (simp add: initial_state_def, rule registered_step)
  with assms(2) show ?thesis by blast
qed

subsection \<open>The cells of a key in the snapshot\<close>

lemma at_key_assemble:
  assumes "at_key (assemble ordF ordL st) k a b c"
  shows "a < length (ordF (dates_set st))" "b < length (ordF (offsets_set st))"
    "c < length (ordL (locations_set st))"
    "(ordF (dates_set st) ! a, ordF (offsets_set st) ! b, lat (ordL (locations_set st) ! c),
      lon (ordL (locations_set st) ! c), elev (ordL (locations_set st) ! c)) = k"
proof -
  from assms show 1: "a < length (ordF (dates_set st))" "b < length (ordF (offsets_set st))"
    "c < length (ordL (locations_set st))"
    by (simp_all add: at_key_def)
  from assms have "cell_key (assemble ordF ordL st) a b c = k"
    by (simp add: at_key_def)
  then show "(ordF (dates_set st) ! a, ordF (offsets_set st) ! b, lat (ordL (locations_set st) ! c),
      lon (ordL (locations_set st) ! c), elev (ordL (locations_set st) ! c)) = k"
    by (simp add: cell_key_def assign_ids_coordinates [OF 1(3)])
qed

lemma cells_at_key:
  assumes "at_key (assemble ordF ordL st) k a b c"
  shows "cells3 (obs (assemble ordF ordL st)) ! a ! b ! c = cell (obs_tbl st) k"
    "cells3 (deterministic (assemble ordF ordL st)) ! a ! b ! c = cell (fcst_tbl st) k"
    "pit_tbl st \<noteq> [] \<Longrightarrow>
     \<exists>P. pit (assemble ordF ordL st) = Some P \<and> cells3 P ! a ! b ! c = cell (pit_tbl st) k"
    "e < length (ordF (thresholds_set st)) \<Longrightarrow>
     cells4 (threshold_scores (assemble ordF ordL st)) ! a ! b ! c ! e
     = cell (cdf_tbl st) (with_level k (ordF (thresholds_set st) ! e))"
    "e < length (ordF (quantiles_set st)) \<Longrightarrow>
     cells4 (quantile_scores (assemble ordF ordL st)) ! a ! b ! c ! e
     = cell (x_tbl st) (with_level k (ordF (quantiles_set st) ! e))"
proof -
  note k = at_key_assemble [OF assms]
  from k(1-3) show "cells3 (obs (assemble ordF ordL st)) ! a ! b ! c = cell (obs_tbl st) k"
    by (simp add: dense3_cell k(4))
  from k(1-3) show "cells3 (deterministic (assemble ordF ordL st)) ! a ! b ! c = cell (fcst_tbl st) k"
    by (simp add: dense3_cell k(4))
  from k(1-3) show "\<exists>P. pit (assemble ordF ordL st) = Some P \<and> cells3 P ! a ! b ! c = cell (pit_tbl st) k"
    if "pit_tbl st \<noteq> []"
    using that by (simp add: dense3_cell k(4))
  from k(1-3) show "cells4 (threshold_scores (assemble ordF ordL st)) ! a ! b ! c ! e
     = cell (cdf_tbl st) (with_level k (ordF (thresholds_set st) ! e))"
    if "e < length (ordF (thresholds_set st))"
    using that by (simp add: dense4_cell k(4) [symmetric] with_level_def)
  from k(1-3) show "cells4 (quantile_scores (assemble ordF ordL st)) ! a ! b ! c ! e
     = cell (x_tbl st) (with_level k (ordF (quantiles_set st) ! e))"
    if "e < length (ordF (quantiles_set st))"
    using that by (simp add: dense4_cell k(4) [symmetric] with_level_def)
qed

lemma enumerates_index:
  assumes "enumerates ord" "x \<in> set xs"
  shows "\<exists>a<length (ord xs). ord xs ! a = x"
proof -
  from assms have "x \<in> set (ord xs)"
    by (simp add: enumerates_def)
  then show ?thesis
    by (simp add: in_set_conv_nth)
qed

lemma key_has_cell:
  assumes "enumerates ordF" "keeps_coordinates ordL"
    and "d \<in> set (dates_set st)" "off \<in> set (offsets_set st)" "l \<in> set (locations_set st)"
  shows "\<exists>a b c. at_key (assemble ordF ordL st) (d, off, lat l, lon l, elev l) a b c"
proof -
  from enumerates_index [OF assms(1,3)] obtain a where
    a: "a < length (ordF (dates_set st))" "ordF (dates_set st) ! a = d"
    by blast
  from enumerates_index [OF assms(1,4)] obtain b where
    b: "b < length (ordF (offsets_set st))" "ordF (offsets_set st) ! b = off"
    by blast
  from assms(2,5) have "\<exists>y. y \<in> set (ordL (locations_set st))
      \<and> lat y = lat l \<and> lon y = lon l \<and> elev y = elev l"
    unfolding keeps_coordinates_def by blast
  then obtain y where y: "y \<in> set (ordL (locations_set st))"
    "lat y = lat l" "lon y = lon l" "elev y = elev l"
    by blast
  from y(1) obtain c where c: "c < length (ordL (locations_set st))"
    "ordL (locations_set st) ! c = y"
    unfolding in_set_conv_nth by blast
  from a b c y(2-4) have
    "at_key (assemble ordF ordL st) (d, off, lat l, lon l, elev l) a b c"
    by (simp add: at_key_def cell_key_def assign_ids_coordinates [OF c(1)])
  then show ?thesis by blast
qed

lemma level_has_index:
  assumes "enumerates ordF" "list_ex (\<lambda>g. flt (tl g) = Some lv) flds"
    and "set (xs @ map (\<lambda>fld. Fin (the (flt (tl fld)))) flds) \<subseteq> set ys"
  shows "\<exists>e<length (ordF ys). ordF ys ! e = Fin lv"
proof -
  from assms(2) obtain g where g: "g \<in> set flds" "flt (tl g) = Some lv"
    unfolding list_ex_iff by blast
  from g(1) have "Fin (the (flt (tl g))) \<in> set (map (\<lambda>fld. Fin (the (flt (tl fld)))) flds)"
    by simp
  with g(2) assms(3) have "Fin lv \<in> set ys"
    by auto
  with assms(1) show ?thesis by (rule enumerates_index)
qed

lemma key_of_rowE:
  assumes "key_of_row flt st st' row = Some k"
  obtains i l where "optional flt st row ''id'' NaN = Inr i" "map_of (locationInfo st') i = Some l"
    "k = (date st', offset st', lat l, lon l, elev l)"
  using assms by (auto simp: key_of_row_def row_key_def split: sum.splits)

lemma read_data_line:
  assumes "read_line flt st r = Inr st1" "header st = Some h" "\<not> starts_with (CHR ''#'') r"
  shows "data_row flt st h (split r) = Inr st1"
  using assms(1)
proof (cases rule: read_lineE)
  case (comment rest)
  with assms(3) show ?thesis by simp
next
  case head
  with assms(2) show ?thesis by simp
next
  case (data h')
  with assms(2) show ?thesis by simp
qed

lemma last_row_state:
  assumes pre: "read_lines flt initial_state pre = Inr st"
    and h: "header st = Some h" "\<not> starts_with (CHR ''#'') r"
    and line: "read_line flt st r = Inr st1"
    and post: "read_lines flt st1 post = Inr st'"
    and key: "key_of_row flt st st1 (split r) = Some k"
    and last: "k \<notin> set (stored_keys flt st1 post)"
  shows "\<exists>ob fc. cleaned flt st (split r) ''obs'' = Inr ob
           \<and> cleaned flt st (split r) ''fcst'' = Inr fc
           \<and> map_of (obs_tbl st') k = Some ob \<and> map_of (fcst_tbl st') k = Some fc"
    and "map_of (indices st) ''pit'' = None
         \<or> (\<exists>p. cleaned flt st (split r) ''pit'' = Inr p \<and> map_of (pit_tbl st') k = Some p)"
    and "reads_level flt st (split r) (get_quantile_fields h) lv v \<Longrightarrow>
         map_of (x_tbl st') (with_level k (Fin lv)) = Some v"
    and "reads_level flt st (split r) (get_threshold_fields h) lv v \<Longrightarrow>
         map_of (cdf_tbl st') (with_level k (Fin lv)) = Some v"
    and "\<exists>d off l. k = (d, off, lat l, lon l, elev l) \<and> d \<in> set (dates_set st')
           \<and> off \<in> set (offsets_set st') \<and> l \<in> set (locations_set st')"
    and "set (quantiles_set st @ map (\<lambda>fld. Fin (the (flt (tl fld)))) (get_quantile_fields h))
         \<subseteq> set (quantiles_set st')"
    and "set (thresholds_set st @ map (\<lambda>fld. Fin (the (flt (tl fld)))) (get_threshold_fields h))
         \<subseteq> set (thresholds_set st')"
proof -
  from line h have row: "data_row flt st h (split r) = Inr st1"
    by (rule read_data_line)
  from key obtain i l where i: "optional flt st (split r) ''id'' NaN = Inr i"
    and l: "map_of (locationInfo st1) i = Some l"
    and k: "k = (date st1, offset st1, lat l, lon l, elev l)"
    by (rule key_of_rowE)
  note frame = tables_frame [OF post last]
  note grows = read_lines_grows [OF post]
  note stores = data_row_stores [OF row i l]
  from stores(1) frame show "\<exists>ob fc. cleaned flt st (split r) ''obs'' = Inr ob
           \<and> cleaned flt st (split r) ''fcst'' = Inr fc
           \<and> map_of (obs_tbl st') k = Some ob \<and> map_of (fcst_tbl st') k = Some fc"
    by (simp add: k)
  from stores(2) frame show "map_of (indices st) ''pit'' = None
         \<or> (\<exists>p. cleaned flt st (split r) ''pit'' = Inr p \<and> map_of (pit_tbl st') k = Some p)"
    by (simp add: k)
  show "map_of (x_tbl st') (with_level k (Fin lv)) = Some v"
    if "reads_level flt st (split r) (get_quantile_fields h) lv v"
  proof -
    from that have "map_of (x_tbl st1) (date st1, offset st1, lat l, lon l, elev l, Fin lv) = Some v"
      unfolding reads_level_def by (intro stores(3)) simp_all
    then have "map_of (x_tbl st1) (with_level k (Fin lv)) = Some v"
      by (simp add: k with_level_def)
    with frame show ?thesis by simp
  qed
  show "map_of (cdf_tbl st') (with_level k (Fin lv)) = Some v"
    if "reads_level flt st (split r) (get_threshold_fields h) lv v"
  proof -
    from that have "map_of (cdf_tbl st1) (date st1, offset st1, lat l, lon l, elev l, Fin lv) = Some v"
      unfolding reads_level_def by (intro stores(4)) simp_all
    then have "map_of (cdf_tbl st1) (with_level k (Fin lv)) = Some v"
      by (simp add: k with_level_def)
    with frame show ?thesis by simp
  qed
  from pre line have "read_lines flt initial_state (pre @ [r]) = Inr st1"
    by (simp add: read_lines_append)
  from registered [OF this l] have "l \<in> set (locations_set st1)" .
  moreover from data_row_sets(3,4) [OF row] have "date st1 \<in> set (dates_set st1)"
    "offset st1 \<in> set (offsets_set st1)"
    by simp_all
  ultimately have "date st1 \<in> set (dates_set st')" "offset st1 \<in> set (offsets_set st')"
    "l \<in> set (locations_set st')"
    using grows by blast+
  with k show "\<exists>d off l. k = (d, off, lat l, lon l, elev l) \<and> d \<in> set (dates_set st')
           \<and> off \<in> set (offsets_set st') \<and> l \<in> set (locations_set st')"
    by blast
  from data_row_sets(5) [OF row] grows
  show "set (quantiles_set st @ map (\<lambda>fld. Fin (the (flt (tl fld)))) (get_quantile_fields h))
         \<subseteq> set (quantiles_set st')"
    by simp
  from data_row_sets(6) [OF row] grows
  show "set (thresholds_set st @ map (\<lambda>fld. Fin (the (flt (tl fld)))) (get_threshold_fields h))
         \<subseteq> set (thresholds_set st')"
    by simp
qed

subsection \<open>The tables decide neither the errors nor the warnings\<close>

lemma forget_tables_idem [simp]: "forget_tables (forget_tables st) = forget_tables st"
  by (simp add: forget_tables_def)

lemma forget_tables_header [simp]: "header (forget_tables st) = header st"
  by (simp add: forget_tables_def)

lemma forget_tables_update:
  "forget_tables (s\<lparr>obs_tbl := a, fcst_tbl := b, pit_tbl := c, quantiles_set := q, x_tbl := x,
      thresholds_set := t, cdf_tbl := y\<rparr>)
   = (forget_tables s)\<lparr>quantiles_set := q, thresholds_set := t\<rparr>"
  by (simp add: forget_tables_def)

lemma data_row_forget:
  "map_sum id forget_tables (data_row flt (forget_tables st) h row)
   = map_sum id forget_tables (data_row flt st h row)"
proof (cases "len_is_not (length row) (length h)")
  case True
  then show ?thesis by (simp add: data_row_def)
next
  case False
  have same: "rel_sum (=) (=) m m" for m :: "error + fval"
    by (cases m) auto
  have pit: "rel_sum (=) (\<lambda>x y. True) (store_pit flt (forget_tables st) row k) (store_pit flt st row k)"
    for k
    by (cases "cleaned flt st row ''pit''") (auto simp: store_pit_def)
  show ?thesis
    unfolding data_row_def Let_def
    apply (simp add: False resolve_location_forget del: bnd_simps)
    apply (rule outcome_bnd [where R = "(=)"], rule same, clarify)+
    apply (simp split: option.split del: bnd_simps)
    apply clarify
    apply (rule outcome_bnd [where R = "(=)"], rule same, clarify)+
    apply (rule outcome_bnd [where R = "\<lambda>x y. True"], rule pit)
    apply (rule outcome_bnd [OF level_loop_rel])
    apply (rule outcome_bnd [OF level_loop_rel])
    apply (simp add: forget_tables_update resolve_location_forget)
    done
qed

lemma read_line_forget:
  "map_sum id forget_tables (read_line flt (forget_tables st) r)
   = map_sum id forget_tables (read_line flt st r)"
proof (cases r)
  case Nil
  then show ?thesis by (simp add: read_line_def)
next
  case (Cons c rest)
  show ?thesis
  proof (cases "c = CHR ''#''")
    case True
    with Cons show ?thesis
      by (auto simp: read_line_def comment_line_def forget_tables_def split: list.splits)
  next
    case False
    show ?thesis
    proof (cases "header st")
      case None
      with Cons False show ?thesis
        by (simp add: read_line_def parse_header_def Let_def forget_tables_def)
    next
      case (Some h)
      with Cons False data_row_forget [of flt st h "split r"] show ?thesis
        by (simp add: read_line_def)
    qed
  qed
qed

lemma read_lines_forget:
  "map_sum id forget_tables (read_lines flt (forget_tables st) rows)
   = map_sum id forget_tables (read_lines flt st rows)"
proof (induction rows arbitrary: st)
  case Nil
  then show ?case by simp
next
  case (Cons r rows)
  show ?case
  proof (cases "read_line flt st r")
    case (Inl e)
    with read_line_forget [of flt st r] have "read_line flt (forget_tables st) r = Inl e"
      by (cases "read_line flt (forget_tables st) r") auto
    with Inl show ?thesis by simp
  next
    case (Inr t)
    with read_line_forget [of flt st r] obtain t' where
      t': "read_line flt (forget_tables st) r = Inr t'" "forget_tables t' = forget_tables t"
      by (cases "read_line flt (forget_tables st) r") auto
    have "map_sum id forget_tables (read_lines flt t' rows)
        = map_sum id forget_tables (read_lines flt (forget_tables t') rows)"
      by (rule Cons.IH [symmetric])
    also have "\<dots> = map_sum id forget_tables (read_lines flt t rows)"
      unfolding t'(2) by (rule Cons.IH)
    finally have "map_sum id forget_tables (read_lines flt t' rows)
        = map_sum id forget_tables (read_lines flt t rows)" .
    moreover from Inr have "read_lines flt st (r # rows) = read_lines flt t rows"
      by simp
    moreover from t'(1) have "read_lines flt (forget_tables st) (r # rows) = read_lines flt t' rows"
      by simp
    ultimately show ?thesis
      by (simp only:)
  qed
qed

lemma read_lines_outcome:
  "map_sum id warnings (read_lines flt (forget_tables st) rows)
   = map_sum id warnings (read_lines flt st rows)"
proof -
  have "map_sum id warnings x = map_sum id warnings (map_sum id forget_tables x)"
    for x :: "error + text_state"
    by (cases x) simp_all
  with read_lines_forget [of flt st rows] show ?thesis
    by metis
qed

subsection \<open>The snapshot of a file with several rows of one key\<close>

text \<open>
  C10. Let a file be read without error, and let \<open>r\<close> be a data row of it such that no
  data row after \<open>r\<close> is stored under the key of \<open>r\<close>, its date, offset, latitude,
  longitude and elevation; any number of rows before \<open>r\<close> may be stored under this key.
  Then the snapshot has a cell for the key, and every cell of the key holds what \<open>r\<close>
  has, cleaned, in its columns: the observation, the forecast, the PIT value when the
  file has the column, and, at the index of every threshold and of every quantile that
  a column names, the value of \<open>r\<close> for this level. So the values of the earlier rows
  of the key are not in the snapshot. A key that is already in the tables raises no
  error and logs no warning: the row, and the row with the rest of the file, end with
  the same error or the same warnings when they are read with the tables emptied.
  The enumeration of the sets is any one that lists the elements of a set once each,
  and, for the locations, one that keeps the coordinates of every location added.
\<close>

theorem later_row_overwrites:
  assumes "enumerates ordF" "keeps_coordinates ordL"
    and "Text_init flt ordF ordL (pre @ r # post) = Inr snap"
    and "read_lines flt initial_state pre = Inr st"
    and "header st = Some h" "\<not> starts_with (CHR ''#'') r"
    and "read_line flt st r = Inr st1"
    and "key_of_row flt st st1 (split r) = Some k"
    and "k \<notin> set (stored_keys flt st1 post)"
  shows "(\<exists>a b c. at_key snap k a b c)
    \<and> (\<forall>a b c. at_key snap k a b c \<longrightarrow>
          cleaned flt st (split r) ''obs'' = Inr (cells3 (obs snap) ! a ! b ! c)
        \<and> cleaned flt st (split r) ''fcst'' = Inr (cells3 (deterministic snap) ! a ! b ! c)
        \<and> (map_of (indices st) ''pit'' = None
           \<or> (\<exists>P. pit snap = Some P
                 \<and> cleaned flt st (split r) ''pit'' = Inr (cells3 P ! a ! b ! c)))
        \<and> (\<forall>lv v. reads_level flt st (split r) (get_threshold_fields h) lv v \<longrightarrow>
              (\<exists>e<length (thresholds snap). thresholds snap ! e = Fin lv)
            \<and> (\<forall>e<length (thresholds snap). thresholds snap ! e = Fin lv \<longrightarrow>
                  cells4 (threshold_scores snap) ! a ! b ! c ! e = v))
        \<and> (\<forall>lv v. reads_level flt st (split r) (get_quantile_fields h) lv v \<longrightarrow>
              (\<exists>e<length (quantiles snap). quantiles snap ! e = Fin lv)
            \<and> (\<forall>e<length (quantiles snap). quantiles snap ! e = Fin lv \<longrightarrow>
                  cells4 (quantile_scores snap) ! a ! b ! c ! e = v)))
    \<and> map_sum id warnings (data_row flt (forget_tables st) h (split r)) = Inr (warnings st1)
    \<and> (\<exists>st'. read_lines flt st (r # post) = Inr st' \<and> snap = assemble ordF ordL st'
          \<and> map_sum id warnings (read_lines flt (forget_tables st) (r # post))
              = Inr (warnings st'))"
proof -
  from assms(3) obtain st' where all: "read_lines flt initial_state (pre @ r # post) = Inr st'"
    and snap: "snap = assemble ordF ordL st'"
    unfolding Text_init_Inr by blast
  from all assms(4,7) have post: "read_lines flt st1 post = Inr st'"
    by (simp add: read_lines_append)
  note s = last_row_state [OF assms(4-7) post assms(8,9)]
  from assms(7,5,6) have row: "data_row flt st h (split r) = Inr st1"
    by (rule read_data_line)
  from s(5) key_has_cell [OF assms(1,2)] have ex: "\<exists>a b c. at_key snap k a b c"
    unfolding snap by blast
  from s(1) obtain ob fc where o: "cleaned flt st (split r) ''obs'' = Inr ob"
    "cleaned flt st (split r) ''fcst'' = Inr fc"
    "map_of (obs_tbl st') k = Some ob" "map_of (fcst_tbl st') k = Some fc"
    by blast
  have cells: "cleaned flt st (split r) ''obs'' = Inr (cells3 (obs snap) ! a ! b ! c)
        \<and> cleaned flt st (split r) ''fcst'' = Inr (cells3 (deterministic snap) ! a ! b ! c)
        \<and> (map_of (indices st) ''pit'' = None
           \<or> (\<exists>P. pit snap = Some P
                 \<and> cleaned flt st (split r) ''pit'' = Inr (cells3 P ! a ! b ! c)))
        \<and> (\<forall>lv v. reads_level flt st (split r) (get_threshold_fields h) lv v \<longrightarrow>
              (\<exists>e<length (thresholds snap). thresholds snap ! e = Fin lv)
            \<and> (\<forall>e<length (thresholds snap). thresholds snap ! e = Fin lv \<longrightarrow>
                  cells4 (threshold_scores snap) ! a ! b ! c ! e = v))
        \<and> (\<forall>lv v. reads_level flt st (split r) (get_quantile_fields h) lv v \<longrightarrow>
              (\<exists>e<length (quantiles snap). quantiles snap ! e = Fin lv)
            \<and> (\<forall>e<length (quantiles snap). quantiles snap ! e = Fin lv \<longrightarrow>
                  cells4 (quantile_scores snap) ! a ! b ! c ! e = v))"
    if "at_key snap k a b c" for a b c
  proof -
    from that have at: "at_key (assemble ordF ordL st') k a b c"
      by (simp add: snap)
    note c = cells_at_key [OF at]
    from c(1,2) o have 1: "cleaned flt st (split r) ''obs'' = Inr (cells3 (obs snap) ! a ! b ! c)"
      "cleaned flt st (split r) ''fcst'' = Inr (cells3 (deterministic snap) ! a ! b ! c)"
      by (simp_all add: snap cell_def)
    have 2: "map_of (indices st) ''pit'' = None
           \<or> (\<exists>P. pit snap = Some P
                 \<and> cleaned flt st (split r) ''pit'' = Inr (cells3 P ! a ! b ! c))"
    proof (cases "map_of (indices st) ''pit''")
      case None
      then show ?thesis by simp
    next
      case (Some j)
      with s(2) obtain p where p: "cleaned flt st (split r) ''pit'' = Inr p"
        "map_of (pit_tbl st') k = Some p"
        by auto
      from p(2) have "pit_tbl st' \<noteq> []"
        by auto
      from c(3) [OF this] p show ?thesis
        by (auto simp: snap cell_def)
    qed
    have 3: "(\<exists>e<length (thresholds snap). thresholds snap ! e = Fin lv)
            \<and> (\<forall>e<length (thresholds snap). thresholds snap ! e = Fin lv \<longrightarrow>
                  cells4 (threshold_scores snap) ! a ! b ! c ! e = v)"
      if lv: "reads_level flt st (split r) (get_threshold_fields h) lv v" for lv v
    proof -
      from lv have "list_ex (\<lambda>g. flt (tl g) = Some lv) (get_threshold_fields h)"
        by (simp add: reads_level_def)
      from level_has_index [OF assms(1) this s(7)]
      have "\<exists>e<length (thresholds snap). thresholds snap ! e = Fin lv"
        by (simp add: snap)
      moreover have "cells4 (threshold_scores snap) ! a ! b ! c ! e = v"
        if "e < length (thresholds snap)" "thresholds snap ! e = Fin lv" for e
        using that c(4) [of e] s(4) [OF lv] by (simp add: snap cell_def)
      ultimately show ?thesis by blast
    qed
    have 4: "(\<exists>e<length (quantiles snap). quantiles snap ! e = Fin lv)
            \<and> (\<forall>e<length (quantiles snap). quantiles snap ! e = Fin lv \<longrightarrow>
                  cells4 (quantile_scores snap) ! a ! b ! c ! e = v)"
      if lv: "reads_level flt st (split r) (get_quantile_fields h) lv v" for lv v
    proof -
      from lv have "list_ex (\<lambda>g. flt (tl g) = Some lv) (get_quantile_fields h)"
        by (simp add: reads_level_def)
      from level_has_index [OF assms(1) this s(6)]
      have "\<exists>e<length (quantiles snap). quantiles snap ! e = Fin lv"
        by (simp add: snap)
      moreover have "cells4 (quantile_scores snap) ! a ! b ! c ! e = v"
        if "e < length (quantiles snap)" "quantiles snap ! e = Fin lv" for e
        using that c(5) [of e] s(3) [OF lv] by (simp add: snap cell_def)
      ultimately show ?thesis by blast
    qed
    from 1 2 3 4 show ?thesis by blast
  qed
  from data_row_outcome [of flt st h "split r"] row
  have w: "map_sum id warnings (data_row flt (forget_tables st) h (split r)) = Inr (warnings st1)"
    by simp
  from all assms(4) have rest: "read_lines flt st (r # post) = Inr st'"
    by (simp add: read_lines_append)
  with read_lines_outcome [of flt st "r # post"]
  have "map_sum id warnings (read_lines flt (forget_tables st) (r # post)) = Inr (warnings st')"
    by simp
  with rest snap have w2: "\<exists>st'. read_lines flt st (r # post) = Inr st'
          \<and> snap = assemble ordF ordL st'
          \<and> map_sum id warnings (read_lines flt (forget_tables st) (r # post))
              = Inr (warnings st')"
    by blast
  from ex cells w w2 show ?thesis by blast
qed

theorem later_row_overwrites_witness:
  "enumerates first_seen \<and> keeps_coordinates first_seen
   \<and> (\<exists>st st1 snap.
         Text_init py_float first_seen first_seen (dup_pre @ dup_row # dup_post) = Inr snap
       \<and> read_lines py_float initial_state dup_pre = Inr st
       \<and> header st = Some (split dup_header)
       \<and> read_line py_float st dup_row = Inr st1
       \<and> key_of_row py_float st st1 (split dup_row) = Some dup_key
       \<and> dup_key \<in> set (stored_keys py_float initial_state dup_pre)
       \<and> dup_key \<notin> set (stored_keys py_float st1 dup_post)
       \<and> reads_level py_float st (split dup_row) (get_threshold_fields (split dup_header))
            10 (Fin (9 / 10))
       \<and> reads_level py_float st (split dup_row) (get_quantile_fields (split dup_header))
            (1 / 2) (Fin 8)
       \<and> at_key snap dup_key 0 0 0
       \<and> cells3 (obs snap) ! 0 ! 0 ! 0 = Fin 5
       \<and> cells3 (deterministic snap) ! 0 ! 0 ! 0 = Fin 6
       \<and> (\<exists>P. pit snap = Some P \<and> cells3 P ! 0 ! 0 ! 0 = Fin (7 / 10))
       \<and> thresholds snap = [Fin 10]
       \<and> cells4 (threshold_scores snap) ! 0 ! 0 ! 0 ! 0 = Fin (9 / 10)
       \<and> quantiles snap = [Fin (1 / 2)]
       \<and> cells4 (quantile_scores snap) ! 0 ! 0 ! 0 ! 0 = Fin 8
       \<and> warnings st1 = [])"
proof -
  have "case read_lines py_float initial_state dup_pre of
     Inl e \<Rightarrow> False
   | Inr st \<Rightarrow>
       header st = Some (split dup_header)
       \<and> dup_key \<in> set (stored_keys py_float initial_state dup_pre)
       \<and> cleaned py_float st (split dup_row) ''obs'' = Inr (Fin 5)
       \<and> cleaned py_float st (split dup_row) ''fcst'' = Inr (Fin 6)
       \<and> cleaned py_float st (split dup_row) ''pit'' = Inr (Fin (7 / 10))
       \<and> map_of (indices st) ''pit'' = Some 4
       \<and> reads_level py_float st (split dup_row) (get_threshold_fields (split dup_header))
            10 (Fin (9 / 10))
       \<and> reads_level py_float st (split dup_row) (get_quantile_fields (split dup_header))
            (1 / 2) (Fin 8)
       \<and> (case read_line py_float st dup_row of
             Inl e \<Rightarrow> False
           | Inr st1 \<Rightarrow>
               key_of_row py_float st st1 (split dup_row) = Some dup_key
               \<and> dup_key \<notin> set (stored_keys py_float st1 dup_post)
               \<and> warnings st1 = [])"
    unfolding dup_pre_def dup_header_def dup_row_def dup_post_def dup_key_def by code_simp
  then obtain st st1 where f:
    "read_lines py_float initial_state dup_pre = Inr st"
    "header st = Some (split dup_header)"
    "dup_key \<in> set (stored_keys py_float initial_state dup_pre)"
    "cleaned py_float st (split dup_row) ''obs'' = Inr (Fin 5)"
    "cleaned py_float st (split dup_row) ''fcst'' = Inr (Fin 6)"
    "cleaned py_float st (split dup_row) ''pit'' = Inr (Fin (7 / 10))"
    "map_of (indices st) ''pit'' = Some 4"
    "reads_level py_float st (split dup_row) (get_threshold_fields (split dup_header))
       10 (Fin (9 / 10))"
    "reads_level py_float st (split dup_row) (get_quantile_fields (split dup_header))
       (1 / 2) (Fin 8)"
    "read_line py_float st dup_row = Inr st1"
    "key_of_row py_float st st1 (split dup_row) = Some dup_key"
    "dup_key \<notin> set (stored_keys py_float st1 dup_post)"
    "warnings st1 = []"
    by (auto split: sum.splits)
  have "case Text_init py_float first_seen first_seen (dup_pre @ dup_row # dup_post) of
     Inl e \<Rightarrow> False
   | Inr snap \<Rightarrow> at_key snap dup_key 0 0 0
       \<and> thresholds snap = [Fin 10] \<and> quantiles snap = [Fin (1 / 2)]"
    unfolding dup_pre_def dup_header_def dup_row_def dup_post_def dup_key_def by code_simp
  then obtain snap where s:
    "Text_init py_float first_seen first_seen (dup_pre @ dup_row # dup_post) = Inr snap"
    "at_key snap dup_key 0 0 0" "thresholds snap = [Fin 10]" "quantiles snap = [Fin (1 / 2)]"
    by (auto split: sum.splits)
  have nc: "\<not> starts_with (CHR ''#'') dup_row"
    by (simp add: dup_row_def)
  note t = later_row_overwrites [OF enumerates_first_seen keeps_coordinates_first_seen
      s(1) f(1,2) nc f(10,11,12)]
  from t have "\<forall>a b c. at_key snap dup_key a b c \<longrightarrow>
          cleaned py_float st (split dup_row) ''obs'' = Inr (cells3 (obs snap) ! a ! b ! c)
        \<and> cleaned py_float st (split dup_row) ''fcst'' = Inr (cells3 (deterministic snap) ! a ! b ! c)
        \<and> (map_of (indices st) ''pit'' = None
           \<or> (\<exists>P. pit snap = Some P
                 \<and> cleaned py_float st (split dup_row) ''pit'' = Inr (cells3 P ! a ! b ! c)))
        \<and> (\<forall>lv v. reads_level py_float st (split dup_row)
                     (get_threshold_fields (split dup_header)) lv v \<longrightarrow>
              (\<exists>e<length (thresholds snap). thresholds snap ! e = Fin lv)
            \<and> (\<forall>e<length (thresholds snap). thresholds snap ! e = Fin lv \<longrightarrow>
                  cells4 (threshold_scores snap) ! a ! b ! c ! e = v))
        \<and> (\<forall>lv v. reads_level py_float st (split dup_row)
                     (get_quantile_fields (split dup_header)) lv v \<longrightarrow>
              (\<exists>e<length (quantiles snap). quantiles snap ! e = Fin lv)
            \<and> (\<forall>e<length (quantiles snap). quantiles snap ! e = Fin lv \<longrightarrow>
                  cells4 (quantile_scores snap) ! a ! b ! c ! e = v))"
    by (rule conjunct1 [OF conjunct2])
  with s(2) have c:
    "cleaned py_float st (split dup_row) ''obs'' = Inr (cells3 (obs snap) ! 0 ! 0 ! 0)"
    "cleaned py_float st (split dup_row) ''fcst'' = Inr (cells3 (deterministic snap) ! 0 ! 0 ! 0)"
    "map_of (indices st) ''pit'' = None
           \<or> (\<exists>P. pit snap = Some P
                 \<and> cleaned py_float st (split dup_row) ''pit'' = Inr (cells3 P ! 0 ! 0 ! 0))"
    "\<forall>lv v. reads_level py_float st (split dup_row)
                     (get_threshold_fields (split dup_header)) lv v \<longrightarrow>
            (\<forall>e<length (thresholds snap). thresholds snap ! e = Fin lv \<longrightarrow>
                  cells4 (threshold_scores snap) ! 0 ! 0 ! 0 ! e = v)"
    "\<forall>lv v. reads_level py_float st (split dup_row)
                     (get_quantile_fields (split dup_header)) lv v \<longrightarrow>
            (\<forall>e<length (quantiles snap). quantiles snap ! e = Fin lv \<longrightarrow>
                  cells4 (quantile_scores snap) ! 0 ! 0 ! 0 ! e = v)"
    by blast+
  from c(1,2) f(4,5) have 1: "cells3 (obs snap) ! 0 ! 0 ! 0 = Fin 5"
    "cells3 (deterministic snap) ! 0 ! 0 ! 0 = Fin 6"
    by simp_all
  from c(3) f(6,7) have 2: "\<exists>P. pit snap = Some P \<and> cells3 P ! 0 ! 0 ! 0 = Fin (7 / 10)"
    by auto
  from c(4) f(8) have "\<forall>e<length (thresholds snap). thresholds snap ! e = Fin 10 \<longrightarrow>
                  cells4 (threshold_scores snap) ! 0 ! 0 ! 0 ! e = Fin (9 / 10)"
    by blast
  with s(3) have 3: "cells4 (threshold_scores snap) ! 0 ! 0 ! 0 ! 0 = Fin (9 / 10)"
    by simp
  from c(5) f(9) have "\<forall>e<length (quantiles snap). quantiles snap ! e = Fin (1 / 2) \<longrightarrow>
                  cells4 (quantile_scores snap) ! 0 ! 0 ! 0 ! e = Fin 8"
    by blast
  with s(4) have 4: "cells4 (quantile_scores snap) ! 0 ! 0 ! 0 ! 0 = Fin 8"
    by simp
  from enumerates_first_seen keeps_coordinates_first_seen s f 1 2 3 4 show ?thesis
    by blast
qed

end
